(* ===== verification/Prelude.thy ===== *)
theory Prelude
  imports Complex_Main "HOL-Library.Sublist"
begin

text \<open>
  Shared vocabulary of the development: the types that name JavaScript's values
  (numbers as the exact rational value of the double, strings as their UTF-8 bytes,
  \<open>Date.now()\<close> timestamps as integers), the rule collections the component
  theories fill, and the generic list operations the controller is written with:
  \<open>map_where\<close> (the \<open>xs.map(x => P(x) ? f(x) : x)\<close> idiom of \<^verbatim>\<open>App.jsx\<close>) and
  \<open>remove_nth\<close> (a settled asynchronous task leaves the task list).
\<close>

type_synonym js_number = rat
type_synonym js_string = string
type_synonym timestamp = int

named_theorems model_simps "evaluation equations of the model's operations"
named_theorems frame_simps "facts saying which parts of the state an operation keeps"

definition map_where :: "('a \<Rightarrow> bool) \<Rightarrow> ('a \<Rightarrow> 'a) \<Rightarrow> 'a list \<Rightarrow> 'a list" where
  "map_where P f xs = map (\<lambda>x. if P x then f x else x) xs"

definition remove_nth :: "nat \<Rightarrow> 'a list \<Rightarrow> 'a list" where
  "remove_nth i xs = take i xs @ drop (Suc i) xs"

subsection \<open>Conditional map\<close>

lemma map_where_Nil [simp]: "map_where P f [] = []"
  by (simp add: map_where_def)

lemma map_where_Cons [simp]:
  "map_where P f (x # xs) = (if P x then f x else x) # map_where P f xs"
  by (simp add: map_where_def)

lemma map_where_append [simp]:
  "map_where P f (xs @ ys) = map_where P f xs @ map_where P f ys"
  by (simp add: map_where_def)

lemma length_map_where [simp]: "length (map_where P f xs) = length xs"
  by (simp add: map_where_def)

lemma nth_map_where [simp]:
  "i < length xs \<Longrightarrow> map_where P f xs ! i = (if P (xs ! i) then f (xs ! i) else xs ! i)"
  by (simp add: map_where_def)

lemma map_where_no_match:
  "\<forall>x \<in> set xs. \<not> P x \<Longrightarrow> map_where P f xs = xs"
  by (induction xs) auto

lemma map_map_where_keep [frame_simps]:
  "(\<And>x. g (f x) = g x) \<Longrightarrow> map g (map_where P f xs) = map g xs"
  by (induction xs) auto

lemma map_where_commute:
  assumes "\<And>x. P x \<Longrightarrow> Q x \<Longrightarrow> False"
    and "\<And>x. P (g x) = P x" and "\<And>x. Q (f x) = Q x"
  shows "map_where P f (map_where Q g xs) = map_where Q g (map_where P f xs)"
  using assms by (induction xs) auto

lemma map_where_twice:
  assumes "\<And>x. P (f' x) = P x" and "\<And>x. f (f' x) = f x"
  shows "map_where P f (map_where P f' xs) = map_where P f xs"
  using assms by (induction xs) auto

lemma set_map_where_sub:
  "set (map_where P f xs) \<subseteq> {x \<in> set xs. \<not> P x} \<union> f ` {x \<in> set xs. P x}"
  by (induction xs) auto

lemma distinct_some_key_eq:
  assumes "distinct (filter (\<lambda>k. k \<noteq> None) (map f xs))" and "x \<in> set xs" and "y \<in> set xs"
    and "f x = f y" and "f x \<noteq> None"
  shows "x = y"
  using assms
proof (induction xs)
  case Nil
  then show ?case by simp
next
  case (Cons a xs)
  have d: "distinct (filter (\<lambda>k. k \<noteq> None) (map f xs))"
    and na: "f a \<noteq> None \<Longrightarrow> f a \<notin> set (map f xs)"
    using Cons.prems(1) by (auto split: if_splits)
  show ?case
  proof (cases "x = a")
    case True
    show ?thesis
    proof (rule ccontr)
      assume "x \<noteq> y"
      then have "y \<in> set xs" using Cons.prems(3) True by auto
      then show False using na True Cons.prems(4,5) by auto
    qed
  next
    case False
    then have x: "x \<in> set xs" using Cons.prems(2) by auto
    show ?thesis
    proof (cases "y = a")
      case True
      then show ?thesis using na x Cons.prems(4,5) by (metis image_eqI set_map)
    next
      case False
      then have "y \<in> set xs" using Cons.prems(3) by auto
      then show ?thesis using Cons.IH d x Cons.prems(4,5) by blast
    qed
  qed
qed

lemma set_map_where:
  "set (map_where P f xs) = {x \<in> set xs. \<not> P x} \<union> f ` {x \<in> set xs. P x}"
  by (induction xs) auto

subsection \<open>Removing the element at an index\<close>

lemma length_remove_nth [simp]:
  "i < length xs \<Longrightarrow> length (remove_nth i xs) = length xs - 1"
  by (simp add: remove_nth_def)

lemma remove_nth_update [simp]: "remove_nth i (xs[i := y]) = remove_nth i xs"
  by (simp add: remove_nth_def)

lemma set_remove_nth_sub: "set (remove_nth i xs) \<subseteq> set xs"
  by (auto simp add: remove_nth_def dest: in_set_takeD in_set_dropD)

lemma map_remove_nth: "map f (remove_nth i xs) = remove_nth i (map f xs)"
  by (simp add: remove_nth_def take_map drop_map)

lemma remove_nth_split:
  "i < length xs \<Longrightarrow> xs = take i xs @ xs ! i # drop (Suc i) xs
     \<and> remove_nth i xs = take i xs @ drop (Suc i) xs"
  by (simp add: remove_nth_def id_take_nth_drop)

lemma distinct_remove_nth: "distinct xs \<Longrightarrow> distinct (remove_nth i xs)"
proof -
  assume d: "distinct xs"
  then have "set (take i xs) \<inter> set (drop i xs) = {}"
    by (metis append_take_drop_id distinct_append)
  moreover have "set (drop (Suc i) xs) \<subseteq> set (drop i xs)"
    by (simp add: set_drop_subset_set_drop)
  ultimately show ?thesis
    using d by (auto simp add: remove_nth_def)
qed

lemma in_set_remove_nth:
  assumes d: "distinct xs" and i: "i < length xs"
  shows "x \<in> set (remove_nth i xs) \<longleftrightarrow> x \<in> set xs \<and> x \<noteq> xs ! i"
proof -
  define ys zs y where "ys = take i xs" and "zs = drop (Suc i) xs" and "y = xs ! i"
  with i have xs: "xs = ys @ y # zs" and r: "remove_nth i xs = ys @ zs"
    using remove_nth_split by blast+
  from d xs have "y \<notin> set ys" and "y \<notin> set zs" by auto
  moreover have "xs ! i = y" by (simp add: y_def)
  ultimately show ?thesis unfolding r using xs by auto
qed

lemma nth_remove_nth_less:
  "j < i \<Longrightarrow> i < length xs \<Longrightarrow> remove_nth i xs ! j = xs ! j"
  by (simp add: remove_nth_def nth_append)

lemma nth_remove_nth_ge:
  "i \<le> j \<Longrightarrow> Suc j < length xs \<Longrightarrow> remove_nth i xs ! j = xs ! Suc j"
  by (simp add: remove_nth_def nth_append min_def)

lemma remove_nth_remove_nth:
  assumes "i < j" and "j < length xs"
  shows "remove_nth (j - 1) (remove_nth i xs) = remove_nth i (remove_nth j xs)"
proof (rule nth_equalityI)
  show "length (remove_nth (j - 1) (remove_nth i xs)) = length (remove_nth i (remove_nth j xs))"
    using assms by simp
next
  fix k
  assume "k < length (remove_nth (j - 1) (remove_nth i xs))"
  then have k: "k + 2 < length xs" using assms by simp
  show "remove_nth (j - 1) (remove_nth i xs) ! k = remove_nth i (remove_nth j xs) ! k"
  proof (cases "k < i")
    case True
    then show ?thesis using assms k by (simp add: nth_remove_nth_less)
  next
    case False
    then show ?thesis
      using assms k by (cases "k < j - 1") (simp_all add: nth_remove_nth_less nth_remove_nth_ge)
  qed
qed

end
