(* ===== verification/Js_Values.thy ===== *)
theory Js_Values
  imports Prelude
begin

text \<open>
  The JavaScript values the program handles: what \<open>response.json()\<close> yields (a JSON
  value), what a marker's \<open>text\<close> field holds (a string literal, or whatever
  \<open>data.display_name\<close> evaluated to, possibly \<open>undefined\<close>), and the two errors
  the \<open>try\<close> block of \<open>addNewMarker\<close> can catch. The member access
  \<open>data.display_name\<close> of \<^verbatim>\<open>src/src/App.jsx\<close> line 62 is \<open>display_name_of\<close>:
  it throws a \<open>TypeError\<close> on \<open>null\<close> and \<open>undefined\<close> and yields \<open>undefined\<close>
  for every value that has no own property of that name.
\<close>

datatype js_val =
    Undefined
  | Null
  | Bool bool
  | Num js_number
  | Str js_string
  | Arr "js_val list"
  | Obj "(js_string \<times> js_val) list"

datatype js_error = TypeError | SyntaxError

text \<open>
  \<open>JSON.parse\<close> keeps the last of several members with the same key, hence the
  lookup in the reversed member list. Primitives and arrays have no property
  \<open>display_name\<close>, neither own nor inherited from their prototypes.
\<close>

fun display_name_of :: "js_val \<Rightarrow> js_error + js_val" where
  "display_name_of Undefined = Inl TypeError"
| "display_name_of Null = Inl TypeError"
| "display_name_of (Obj kvs) =
     Inr (case map_of (rev kvs) ''display_name'' of None \<Rightarrow> Undefined | Some v \<Rightarrow> v)"
| "display_name_of (Bool b) = Inr Undefined"
| "display_name_of (Num n) = Inr Undefined"
| "display_name_of (Str s) = Inr Undefined"
| "display_name_of (Arr vs) = Inr Undefined"

text \<open>A value \<open>JSON.parse\<close> can produce: no \<open>undefined\<close> anywhere inside.\<close>

fun json_value :: "js_val \<Rightarrow> bool" where
  "json_value Undefined = False"
| "json_value (Arr vs) = (\<forall>v \<in> set vs. json_value v)"
| "json_value (Obj kvs) = (\<forall>kv \<in> set kvs. json_value (snd kv))"
| "json_value _ = True"

lemma display_name_of_error [simp]:
  "display_name_of v = Inl e \<longleftrightarrow> (v = Undefined \<or> v = Null) \<and> e = TypeError"
  by (cases v) auto

lemma display_name_of_json:
  "json_value v \<Longrightarrow> display_name_of v = Inr r \<Longrightarrow> json_value r \<or> r = Undefined"
proof (cases v)
  case (Obj kvs)
  assume "json_value v" and "display_name_of v = Inr r"
  with Obj show ?thesis
    by (auto split: option.splits dest!: map_of_SomeD) (metis snd_conv)
qed auto

lemma display_name_of_member [model_simps]:
  "map_of (rev kvs) ''display_name'' = Some v \<Longrightarrow> display_name_of (Obj kvs) = Inr v"
  by simp

end
