(* ===== verification/Marker_Controller.thy ===== *)
theory Marker_Controller
  imports Js_Values
begin

text \<open>
  The marker controller of \<^verbatim>\<open>src/src/App.jsx\<close>: the \<open>markers\<close> state of
  \<open>App\<close> (lines 41-43), the asynchronous function \<open>addNewMarker\<close> (lines 45-76)
  and the click listener \<open>ClickHandle\<close> that calls it (lines 14-22).

  \<open>addNewMarker\<close> runs synchronously up to its first \<open>await\<close>: it takes
  \<open>Date.now()\<close> as the marker's id, appends the placeholder marker and issues the
  request. It then suspends twice: at \<open>await fetch(url)\<close> and at
  \<open>await response.json()\<close>. Each suspended invocation is a \<open>task\<close> of the state;
  the environment settles one task's pending promise per event, in any order, which
  is the interleaving of the browser's event loop. React applies the updater
  functions passed to \<open>setMarkers\<close> in the order they were queued, each to the
  result of the previous one, so each updater is applied to the state at the step
  that queues it.
\<close>

subsection \<open>Data\<close>

text \<open>Leaflet's \<open>e.latlng\<close>; a click event is modelled by its coordinate.\<close>

record latlng =
  lat :: js_number
  lng :: js_number

record click_event =
  event_latlng :: latlng

text \<open>
  A marker object \<open>{id, lat, lng, text}\<close>. The initial marker has no \<open>id\<close> field:
  reading it gives \<open>undefined\<close>, here \<open>None\<close>, which is \<open>===\<close> to no number.
\<close>

record marker =
  marker_id :: "timestamp option"
  marker_lat :: js_number
  marker_lng :: js_number
  marker_text :: js_val

text \<open>
  The three string literals, as the UTF-8 bytes of the source text:
  \<open>placeholder_text\<close> is the Chinese for ``fetching address... (hourglass)'',
  \<open>failure_text\<close> for ``failed to get address'', \<open>initial_text\<close> for
  ``initial position''.
\<close>

definition placeholder_text :: js_string where
  "placeholder_text =
     [CHR 0xE6, CHR 0xAD, CHR 0xA3, CHR 0xE5, CHR 0x9C, CHR 0xA8, CHR 0xE8, CHR 0x8E, CHR 0xB7,
      CHR 0xE5, CHR 0x8F, CHR 0x96, CHR 0xE5, CHR 0x9C, CHR 0xB0, CHR 0xE5, CHR 0x9D, CHR 0x80,
      CHR ''.'', CHR ''.'', CHR ''.'', CHR '' '', CHR 0xE2, CHR 0x8F, CHR 0xB3]"

definition failure_text :: js_string where
  "failure_text =
     [CHR 0xE8, CHR 0x8E, CHR 0xB7, CHR 0xE5, CHR 0x8F, CHR 0x96, CHR 0xE5, CHR 0x9C, CHR 0xB0,
      CHR 0xE5, CHR 0x9D, CHR 0x80, CHR 0xE5, CHR 0xA4, CHR 0xB1, CHR 0xE8, CHR 0xB4, CHR 0xA5]"

definition initial_text :: js_string where
  "initial_text =
     [CHR 0xE5, CHR 0x88, CHR 0x9D, CHR 0xE5, CHR 0xA7, CHR 0x8B,
      CHR 0xE4, CHR 0xBD, CHR 0x8D, CHR 0xE7, CHR 0xBD, CHR 0xAE]"

text \<open>
  The literals \<open>35.6586\<close> and \<open>139.7454\<close> denote the nearest doubles, whose exact
  values are the fractions below.
\<close>

definition initial_lat :: js_number where
  "initial_lat = 5018501802267299 / 140737488355328"

definition initial_lng :: js_number where
  "initial_lng = 4916854151302663 / 35184372088832"

definition initial_markers :: "marker list" where
  "initial_markers =
     [\<lparr>marker_id = None, marker_lat = initial_lat, marker_lng = initial_lng,
       marker_text = Str initial_text\<rparr>]"

subsection \<open>State\<close>

text \<open>
  A suspended invocation of \<open>addNewMarker\<close>, holding the \<open>tempId\<close> its closure
  captured: waiting for \<open>fetch(url)\<close> (the request for that coordinate) or for
  \<open>response.json()\<close>.
\<close>

datatype task =
    AwaitFetch timestamp latlng
  | AwaitJson timestamp

fun task_id :: "task \<Rightarrow> timestamp" where
  "task_id (AwaitFetch tid ll) = tid"
| "task_id (AwaitJson tid) = tid"

record app_state =
  markers :: "marker list"
  tasks :: "task list"

definition init_state :: app_state where
  "init_state = \<lparr>markers = initial_markers, tasks = []\<rparr>"

text \<open>
  How a pending promise settles. \<open>fetch\<close> rejects (with a \<open>TypeError\<close>) only on a
  network failure; an HTTP error status resolves it like any other response.
  \<open>response.json()\<close> rejects with a \<open>SyntaxError\<close> on a body that is not JSON.
\<close>

datatype fetch_outcome = FetchRejected js_error | FetchResolved nat

datatype json_outcome = JsonRejected js_error | JsonResolved js_val

datatype event =
    Click click_event timestamp
  | Fetch_settles nat fetch_outcome
  | Json_settles nat json_outcome

subsection \<open>Operations\<close>

text \<open>\<open>ClickHandle\<close>: the map's click handler passes \<open>e.latlng\<close> to \<open>onMapClick\<close>.\<close>

definition click_handle :: "(latlng \<Rightarrow> 'a) \<Rightarrow> click_event \<Rightarrow> 'a" where
  "click_handle on_map_click e = on_map_click (event_latlng e)"

definition temp_marker :: "timestamp \<Rightarrow> latlng \<Rightarrow> marker" where
  "temp_marker temp_id ll =
     \<lparr>marker_id = Some temp_id, marker_lat = lat ll, marker_lng = lng ll,
      marker_text = Str placeholder_text\<rparr>"

text \<open>
  The updater \<open>current => current.map(marker => marker.id === tempId ?
  {...marker, text: v} : marker)\<close> of both the success and the failure branch.
\<close>

definition set_text :: "timestamp \<Rightarrow> js_val \<Rightarrow> marker list \<Rightarrow> marker list" where
  "set_text temp_id v =
     map_where (\<lambda>m. marker_id m = Some temp_id) (\<lambda>m. m\<lparr>marker_text := v\<rparr>)"

text \<open>
  The synchronous part of \<open>addNewMarker\<close>: the id, the placeholder marker appended
  by \<open>setMarkers(current => [...current, tempMarker])\<close>, and the request issued by
  \<open>fetch(url)\<close>, on which the invocation suspends.
\<close>

definition add_new_marker :: "timestamp \<Rightarrow> latlng \<Rightarrow> app_state \<Rightarrow> app_state" where
  "add_new_marker now ll s =
     s\<lparr>markers := markers s @ [temp_marker now ll],
       tasks := tasks s @ [AwaitFetch now ll]\<rparr>"

text \<open>
  The label the invocation finally writes once \<open>response.json()\<close> has settled:
  the address \<open>data.display_name\<close>, whatever value that is, or the failure text
  when the promise rejected or the member access threw.
\<close>

definition address_label :: "json_outcome \<Rightarrow> js_val" where
  "address_label r =
     (case r of
        JsonRejected e \<Rightarrow> Str failure_text
      | JsonResolved data \<Rightarrow>
          (case display_name_of data of
             Inl e \<Rightarrow> Str failure_text
           | Inr address \<Rightarrow> address))"

text \<open>
  Resumption at \<open>await fetch(url)\<close> of the task at index \<open>i\<close>: a rejection jumps
  to the \<open>catch\<close> block, which writes the failure text and ends the invocation; a
  response, whatever its status, goes on to \<open>await response.json()\<close>.
\<close>

definition fetch_settled :: "nat \<Rightarrow> timestamp \<Rightarrow> fetch_outcome \<Rightarrow> app_state \<Rightarrow> app_state" where
  "fetch_settled i temp_id r s =
     (case r of
        FetchRejected e \<Rightarrow>
          s\<lparr>markers := set_text temp_id (Str failure_text) (markers s),
            tasks := remove_nth i (tasks s)\<rparr>
      | FetchResolved status \<Rightarrow>
          s\<lparr>tasks := (tasks s)[i := AwaitJson temp_id]\<rparr>)"

text \<open>Resumption at \<open>await response.json()\<close>: the invocation writes its label and ends.\<close>

definition json_settled :: "nat \<Rightarrow> timestamp \<Rightarrow> json_outcome \<Rightarrow> app_state \<Rightarrow> app_state" where
  "json_settled i temp_id r s =
     s\<lparr>markers := set_text temp_id (address_label r) (markers s),
       tasks := remove_nth i (tasks s)\<rparr>"

text \<open>
  One turn of the event loop: a click, or the settling of the promise a task waits
  for. \<open>None\<close>: the event cannot happen in this state (no such task, or the task
  waits for the other promise).
\<close>

fun app_step :: "app_state \<Rightarrow> event \<Rightarrow> app_state option" where
  "app_step s (Click e now) = Some (click_handle (\<lambda>ll. add_new_marker now ll s) e)"
| "app_step s (Fetch_settles i r) =
     (if i < length (tasks s) then
        (case tasks s ! i of
           AwaitFetch temp_id ll \<Rightarrow> Some (fetch_settled i temp_id r s)
         | AwaitJson temp_id \<Rightarrow> None)
      else None)"
| "app_step s (Json_settles i r) =
     (if i < length (tasks s) then
        (case tasks s ! i of
           AwaitFetch temp_id ll \<Rightarrow> None
         | AwaitJson temp_id \<Rightarrow> Some (json_settled i temp_id r s))
      else None)"

fun app_run :: "app_state \<Rightarrow> event list \<Rightarrow> app_state option" where
  "app_run s [] = Some s"
| "app_run s (e # es) = (case app_step s e of None \<Rightarrow> None | Some s' \<Rightarrow> app_run s' es)"

inductive reachable :: "app_state \<Rightarrow> bool" where
  init: "reachable init_state"
| step: "reachable s \<Longrightarrow> app_step s e = Some s' \<Longrightarrow> reachable s'"

text \<open>What a marker keeps for life: its id and its position.\<close>

definition marker_key :: "marker \<Rightarrow> timestamp option \<times> js_number \<times> js_number" where
  "marker_key m = (marker_id m, marker_lat m, marker_lng m)"

text \<open>
  Under the invariants below, ids are unique among the markers that have one, and
  a task's marker still shows the placeholder.
\<close>

definition ids_unique :: "marker list \<Rightarrow> bool" where
  "ids_unique ms \<longleftrightarrow> distinct (filter (\<lambda>x. x \<noteq> None) (map marker_id ms))"

definition pending_ids :: "app_state \<Rightarrow> timestamp list" where
  "pending_ids s = map task_id (tasks s)"

definition tasks_have_markers :: "app_state \<Rightarrow> bool" where
  "tasks_have_markers s \<longleftrightarrow>
     (\<forall>i \<in> set (pending_ids s). Some i \<in> marker_id ` set (markers s))"

definition pending_show_placeholder :: "app_state \<Rightarrow> bool" where
  "pending_show_placeholder s \<longleftrightarrow>
     (\<forall>m \<in> set (markers s). \<forall>i \<in> set (pending_ids s).
        marker_id m = Some i \<longrightarrow> marker_text m = Str placeholder_text)"

text \<open>
  \<open>Date.now()\<close> is fresh at a click when no marker carries that id yet; the clock
  gives no such guarantee (two clicks in one millisecond, a clock set back).
\<close>

definition fresh_event :: "app_state \<Rightarrow> event \<Rightarrow> bool" where
  "fresh_event s e =
     (case e of Click ev now \<Rightarrow> Some now \<notin> marker_id ` set (markers s) | _ \<Rightarrow> True)"

definition ctrl_inv :: "app_state \<Rightarrow> bool" where
  "ctrl_inv s \<longleftrightarrow> tasks_have_markers s \<and> ids_unique (markers s)
     \<and> distinct (pending_ids s) \<and> pending_show_placeholder s"

inductive reachable_fresh :: "app_state \<Rightarrow> bool" where
  init: "reachable_fresh init_state"
| step: "reachable_fresh s \<Longrightarrow> fresh_event s e \<Longrightarrow> app_step s e = Some s' \<Longrightarrow> reachable_fresh s'"

text \<open>The task an event resumes, if any.\<close>

fun settled_task :: "event \<Rightarrow> nat option" where
  "settled_task (Click ev now) = None"
| "settled_task (Fetch_settles i r) = Some i"
| "settled_task (Json_settles i r) = Some i"

subsection \<open>Facts about the operations\<close>

lemma texts_differ [simp]:
  "placeholder_text \<noteq> failure_text" "failure_text \<noteq> placeholder_text"
  "initial_text \<noteq> placeholder_text" "initial_text \<noteq> failure_text"
  by (simp_all add: placeholder_text_def failure_text_def initial_text_def)

declare add_new_marker_def [model_simps] fetch_settled_def [model_simps]
  json_settled_def [model_simps] click_handle_def [model_simps] temp_marker_def [model_simps]
  init_state_def [model_simps] initial_markers_def [model_simps]

lemma length_set_text [simp]: "length (set_text t v ms) = length ms"
  by (simp add: set_text_def)

lemma set_text_nth:
  "j < length ms \<Longrightarrow> set_text t v ms ! j =
     (if marker_id (ms ! j) = Some t then (ms ! j)\<lparr>marker_text := v\<rparr> else ms ! j)"
  by (simp add: set_text_def)

lemma set_text_ids [simp, frame_simps]: "map marker_id (set_text t v ms) = map marker_id ms"
  by (simp add: set_text_def frame_simps)

lemma set_text_keys [simp, frame_simps]: "map marker_key (set_text t v ms) = map marker_key ms"
  by (simp add: set_text_def marker_key_def frame_simps)

lemma set_text_id_image [simp]: "marker_id ` set (set_text t v ms) = marker_id ` set ms"
  by (metis set_map set_text_ids)

lemma set_text_absent: "Some t \<notin> marker_id ` set ms \<Longrightarrow> set_text t v ms = ms"
  unfolding set_text_def by (rule map_where_no_match) (metis image_eqI)

lemma set_text_commute:
  "t \<noteq> t' \<Longrightarrow> set_text t v (set_text t' v' ms) = set_text t' v' (set_text t v ms)"
  unfolding set_text_def by (rule map_where_commute) auto

lemma set_text_twice: "set_text t v (set_text t v' ms) = set_text t v ms"
  unfolding set_text_def by (rule map_where_twice) auto

lemma set_text_texts:
  "m \<in> set (set_text t v ms) \<Longrightarrow>
     (m \<in> set ms \<and> marker_id m \<noteq> Some t) \<or> (marker_id m = Some t \<and> marker_text m = v)"
  using set_map_where_sub [of "\<lambda>m. marker_id m = Some t" "\<lambda>m. m\<lparr>marker_text := v\<rparr>" ms]
  by (auto simp add: set_text_def)

lemma app_step_SomeE [consumes 1, case_names click fetch json]:
  assumes "app_step s e = Some s'"
  obtains (click) ev now where "e = Click ev now" "s' = add_new_marker now (event_latlng ev) s"
  | (fetch) i tid ll r where "e = Fetch_settles i r" "i < length (tasks s)"
      "tasks s ! i = AwaitFetch tid ll" "s' = fetch_settled i tid r s"
  | (json) i tid r where "e = Json_settles i r" "i < length (tasks s)"
      "tasks s ! i = AwaitJson tid" "s' = json_settled i tid r s"
  using assms
  by (cases e) (auto simp add: click_handle_def split: if_splits task.splits)

lemma app_step_keys_prefix:
  "app_step s e = Some s' \<Longrightarrow> prefix (map marker_key (markers s)) (map marker_key (markers s'))"
  by (erule app_step_SomeE) (auto simp add: model_simps split: fetch_outcome.splits)

subsection \<open>Invariants\<close>

lemma pending_ids_add [simp]:
  "pending_ids (add_new_marker now ll s) = pending_ids s @ [now]"
  by (simp add: pending_ids_def add_new_marker_def)

lemma markers_add [simp]:
  "markers (add_new_marker now ll s) = markers s @ [temp_marker now ll]"
  by (simp add: add_new_marker_def)

lemma pending_ids_settle [simp]:
  "pending_ids (s\<lparr>markers := ms, tasks := remove_nth i (tasks s)\<rparr>) = remove_nth i (pending_ids s)"
  by (simp add: pending_ids_def map_remove_nth)

lemma pending_ids_resolved [simp]:
  "i < length (tasks s) \<Longrightarrow> tasks s ! i = AwaitFetch tid ll \<Longrightarrow>
     pending_ids (s\<lparr>tasks := (tasks s)[i := AwaitJson tid]\<rparr>) = pending_ids s"
  by (simp add: pending_ids_def map_update list_update_same_conv)

lemma pending_ids_nth:
  "i < length (tasks s) \<Longrightarrow> pending_ids s ! i = task_id (tasks s ! i)"
  by (simp add: pending_ids_def)

lemma length_pending_ids [simp]: "length (pending_ids s) = length (tasks s)"
  by (simp add: pending_ids_def)

lemma tasks_have_markers_step:
  assumes "tasks_have_markers s" and "app_step s e = Some s'"
  shows "tasks_have_markers s'"
  using assms(2)
proof (cases rule: app_step_SomeE)
  case (click ev now)
  then show ?thesis using assms(1)
    by (auto simp add: tasks_have_markers_def click_handle_def temp_marker_def)
next
  case (fetch i tid ll r)
  then show ?thesis using assms(1) set_remove_nth_sub [of i "pending_ids s"]
    by (auto simp add: tasks_have_markers_def fetch_settled_def split: fetch_outcome.splits)
next
  case (json i tid r)
  then show ?thesis using assms(1) set_remove_nth_sub [of i "pending_ids s"]
    by (auto simp add: tasks_have_markers_def json_settled_def)
qed

lemma reachable_tasks_have_markers: "reachable s \<Longrightarrow> tasks_have_markers s"
proof (induction rule: reachable.induct)
  case init
  show ?case by (simp add: tasks_have_markers_def pending_ids_def init_state_def)
next
  case (step s e s')
  then show ?case by (blast intro: tasks_have_markers_step)
qed

lemma ctrl_inv_init: "ctrl_inv init_state"
  by (simp add: ctrl_inv_def tasks_have_markers_def ids_unique_def pending_ids_def
      pending_show_placeholder_def model_simps)

lemma ctrl_inv_add:
  assumes inv: "ctrl_inv s" and fresh: "Some now \<notin> marker_id ` set (markers s)"
  shows "ctrl_inv (add_new_marker now ll s)"
proof -
  from inv fresh have "now \<notin> set (pending_ids s)"
    by (auto simp add: ctrl_inv_def tasks_have_markers_def)
  with inv fresh show ?thesis
    by (auto simp add: ctrl_inv_def tasks_have_markers_def ids_unique_def
        pending_show_placeholder_def temp_marker_def image_iff)
qed

text \<open>Both endings of an invocation write a label and drop the task.\<close>

lemma ctrl_inv_settle:
  assumes inv: "ctrl_inv s" and i: "i < length (tasks s)" and tid: "task_id (tasks s ! i) = tid"
  shows "ctrl_inv (s\<lparr>markers := set_text tid v (markers s), tasks := remove_nth i (tasks s)\<rparr>)"
proof -
  let ?ps = "pending_ids s"
  have d: "distinct ?ps" using inv by (simp add: ctrl_inv_def)
  have mem: "x \<in> set (remove_nth i ?ps) \<longleftrightarrow> x \<in> set ?ps \<and> x \<noteq> tid" for x
    using in_set_remove_nth [OF d] i tid by (simp add: pending_ids_nth)
  have ph: "pending_show_placeholder s" and th: "tasks_have_markers s"
    and u: "ids_unique (markers s)"
    using inv by (simp_all add: ctrl_inv_def)
  have "pending_show_placeholder
          (s\<lparr>markers := set_text tid v (markers s), tasks := remove_nth i (tasks s)\<rparr>)"
    unfolding pending_show_placeholder_def
  proof (intro ballI impI)
    fix m x
    assume m: "m \<in> set (markers (s\<lparr>markers := set_text tid v (markers s),
                 tasks := remove_nth i (tasks s)\<rparr>))"
      and x: "x \<in> set (pending_ids (s\<lparr>markers := set_text tid v (markers s),
                 tasks := remove_nth i (tasks s)\<rparr>))"
      and mx: "marker_id m = Some x"
    from x have "x \<in> set ?ps" and "x \<noteq> tid" using mem by auto
    with m mx set_text_texts [of m tid v "markers s"] ph
    show "marker_text m = Str placeholder_text"
      by (auto simp add: pending_show_placeholder_def)
  qed
  moreover have "tasks_have_markers
          (s\<lparr>markers := set_text tid v (markers s), tasks := remove_nth i (tasks s)\<rparr>)"
    using th mem by (simp add: tasks_have_markers_def)
  ultimately show ?thesis
    using d u by (simp add: ctrl_inv_def ids_unique_def distinct_remove_nth)
qed

lemma ctrl_inv_step:
  assumes inv: "ctrl_inv s" and fresh: "fresh_event s e" and st: "app_step s e = Some s'"
  shows "ctrl_inv s'"
  using st
proof (cases rule: app_step_SomeE)
  case (click ev now)
  then show ?thesis using inv fresh ctrl_inv_add by (simp add: fresh_event_def)
next
  case (fetch i tid ll r)
  show ?thesis
  proof (cases r)
    case (FetchRejected err)
    with fetch show ?thesis using inv ctrl_inv_settle [OF inv, of i tid]
      by (simp add: fetch_settled_def)
  next
    case (FetchResolved status)
    with fetch inv show ?thesis
      by (simp add: fetch_settled_def ctrl_inv_def tasks_have_markers_def
          pending_show_placeholder_def)
  qed
next
  case (json i tid r)
  then show ?thesis using ctrl_inv_settle [OF inv, of i tid] by (simp add: json_settled_def)
qed

lemma reachable_fresh_ctrl_inv: "reachable_fresh s \<Longrightarrow> ctrl_inv s"
  by (induction rule: reachable_fresh.induct) (auto intro: ctrl_inv_init ctrl_inv_step)

lemma settle_changed:
  assumes inv: "ctrl_inv s" and i: "i < length (tasks s)" and tid: "task_id (tasks s ! i) = tid"
    and j: "j < length (markers s)"
    and ch: "marker_text (set_text tid v (markers s) ! j) \<noteq> marker_text (markers s ! j)"
  shows "marker_text (markers s ! j) = Str placeholder_text \<and> marker_id (markers s ! j) = Some tid
     \<and> tid \<in> set (pending_ids s) \<and> tid \<notin> set (remove_nth i (pending_ids s))"
proof -
  from ch j have idj: "marker_id (markers s ! j) = Some tid"
    by (auto simp add: set_text_nth split: if_splits)
  have tin: "tid \<in> set (pending_ids s)"
    using i tid by (auto simp add: pending_ids_def)
  have d: "distinct (pending_ids s)" using inv by (simp add: ctrl_inv_def)
  have "tid \<notin> set (remove_nth i (pending_ids s))"
    using in_set_remove_nth [OF d] i tid by (simp add: pending_ids_nth)
  moreover have "marker_text (markers s ! j) = Str placeholder_text"
    using inv idj tin j by (auto simp add: ctrl_inv_def pending_show_placeholder_def)
  ultimately show ?thesis using idj tin by blast
qed

subsection \<open>Properties of the controller\<close>

text \<open>
  C1 (optimistic insert). A click is handled at once: the marker for the clicked
  coordinate is appended with the placeholder label and its request is pending,
  whatever the existing state and before any response is processed.
\<close>

theorem click_inserts_placeholder:
  "\<exists>s'. app_step s (Click ev now) = Some s'
     \<and> markers s' = markers s @ [\<lparr>marker_id = Some now, marker_lat = lat (event_latlng ev),
          marker_lng = lng (event_latlng ev), marker_text = Str placeholder_text\<rparr>]
     \<and> pending_ids s' = pending_ids s @ [now]"
  by (simp add: click_handle_def temp_marker_def)

text \<open>
  C2 (label changes once). In every state reached with fresh ids, a step changes a
  marker's label only if the marker shows the placeholder and its request is
  pending, and that step ends the request: the label goes from the placeholder to
  its final value once and never changes again.
\<close>

theorem label_changes_only_once:
  assumes r: "reachable_fresh s" and st: "app_step s e = Some s'"
    and j: "j < length (markers s)"
    and ch: "marker_text (markers s' ! j) \<noteq> marker_text (markers s ! j)"
  shows "marker_text (markers s ! j) = Str placeholder_text
     \<and> (\<exists>i. marker_id (markers s ! j) = Some i \<and> i \<in> set (pending_ids s)
            \<and> i \<notin> set (pending_ids s'))"
proof -
  have inv: "ctrl_inv s" using r by (rule reachable_fresh_ctrl_inv)
  from st show ?thesis
  proof (cases rule: app_step_SomeE)
    case (click ev now)
    with j ch show ?thesis by (simp add: nth_append)
  next
    case (fetch i tid ll r)
    show ?thesis
    proof (cases r)
      case (FetchRejected err)
      with fetch ch settle_changed [OF inv \<open>i < length (tasks s)\<close> _ j, of tid]
      show ?thesis by (auto simp add: fetch_settled_def)
    next
      case (FetchResolved status)
      with fetch ch show ?thesis by (simp add: fetch_settled_def)
    qed
  next
    case (json i tid r)
    with ch settle_changed [OF inv \<open>i < length (tasks s)\<close> _ j, of tid]
    show ?thesis by (auto simp add: json_settled_def)
  qed
qed

theorem label_changes_only_once_witness:
  "reachable_fresh (add_new_marker 1000 \<lparr>lat = 35, lng = 139\<rparr> init_state)
   \<and> app_step (add_new_marker 1000 \<lparr>lat = 35, lng = 139\<rparr> init_state)
       (Fetch_settles 0 (FetchRejected TypeError))
     = Some (fetch_settled 0 1000 (FetchRejected TypeError)
               (add_new_marker 1000 \<lparr>lat = 35, lng = 139\<rparr> init_state))
   \<and> (1::nat) < length (markers (add_new_marker 1000 \<lparr>lat = 35, lng = 139\<rparr> init_state))
   \<and> marker_text (markers (fetch_settled 0 1000 (FetchRejected TypeError)
        (add_new_marker 1000 \<lparr>lat = 35, lng = 139\<rparr> init_state)) ! 1)
     \<noteq> marker_text (markers (add_new_marker 1000 \<lparr>lat = 35, lng = 139\<rparr> init_state) ! 1)
   \<and> marker_text (markers (add_new_marker 1000 \<lparr>lat = 35, lng = 139\<rparr> init_state) ! 1)
     = Str placeholder_text"
proof -
  let ?s = "add_new_marker 1000 \<lparr>lat = 35, lng = 139\<rparr> init_state"
  have r: "reachable_fresh ?s"
  proof (rule reachable_fresh.step [OF reachable_fresh.init])
    show "fresh_event init_state (Click \<lparr>event_latlng = \<lparr>lat = 35, lng = 139\<rparr>\<rparr> 1000)"
      by (simp add: fresh_event_def model_simps)
    show "app_step init_state (Click \<lparr>event_latlng = \<lparr>lat = 35, lng = 139\<rparr>\<rparr> 1000) = Some ?s"
      by (simp add: click_handle_def)
  qed
  have st: "app_step ?s (Fetch_settles 0 (FetchRejected TypeError))
      = Some (fetch_settled 0 1000 (FetchRejected TypeError) ?s)"
    by (simp add: model_simps)
  have ch: "marker_text (markers (fetch_settled 0 1000 (FetchRejected TypeError) ?s) ! 1)
      \<noteq> marker_text (markers ?s ! 1)"
    by (simp add: model_simps set_text_def)
  have "marker_text (markers ?s ! 1) = Str placeholder_text"
    using label_changes_only_once [OF r st _ ch] by (simp add: model_simps)
  with r st ch show ?thesis by (simp add: model_simps)
qed

text \<open>
  C3 (no cross-update). A step changes only the markers whose id is the id of the
  task it resumes; a click changes no existing marker. Out-of-order completions
  of different requests therefore never touch each other's markers.
\<close>

theorem settle_touches_only_own_marker:
  assumes "app_step s e = Some s'" and "j < length (markers s)"
    and "\<forall>i. settled_task e = Some i \<longrightarrow> marker_id (markers s ! j) \<noteq> Some (task_id (tasks s ! i))"
  shows "markers s' ! j = markers s ! j"
  using assms(1)
proof (cases rule: app_step_SomeE)
  case (click ev now)
  then show ?thesis using assms(2) by (simp add: nth_append)
next
  case (fetch i tid ll r)
  then show ?thesis using assms(2,3)
    by (auto simp add: fetch_settled_def set_text_nth split: fetch_outcome.splits)
next
  case (json i tid r)
  then show ?thesis using assms(2,3) by (auto simp add: json_settled_def set_text_nth)
qed

theorem settle_touches_only_own_marker_witness:
  "app_step (add_new_marker 2000 \<lparr>lat = 1, lng = 2\<rparr> (add_new_marker 1000 \<lparr>lat = 35, lng = 139\<rparr> init_state))
      (Fetch_settles 1 (FetchRejected TypeError)) \<noteq> None
   \<and> markers (the (app_step (add_new_marker 2000 \<lparr>lat = 1, lng = 2\<rparr>
        (add_new_marker 1000 \<lparr>lat = 35, lng = 139\<rparr> init_state))
        (Fetch_settles 1 (FetchRejected TypeError)))) ! 1
     = markers (add_new_marker 2000 \<lparr>lat = 1, lng = 2\<rparr>
         (add_new_marker 1000 \<lparr>lat = 35, lng = 139\<rparr> init_state)) ! 1"
proof -
  let ?s = "add_new_marker 2000 \<lparr>lat = 1, lng = 2\<rparr> (add_new_marker 1000 \<lparr>lat = 35, lng = 139\<rparr> init_state)"
  let ?e = "Fetch_settles 1 (FetchRejected TypeError)"
  have st: "app_step ?s ?e = Some (fetch_settled 1 2000 (FetchRejected TypeError) ?s)"
    by (simp add: model_simps)
  have "markers (fetch_settled 1 2000 (FetchRejected TypeError) ?s) ! 1 = markers ?s ! 1"
    by (rule settle_touches_only_own_marker [OF st]) (simp_all add: model_simps)
  with st show ?thesis by simp
qed

text \<open>
  C4 (out-of-order completion). When two requests with different ids are both
  waiting for their JSON body, settling them in either order gives the same state.
\<close>

theorem json_settles_commute:
  assumes ij: "i < j" "j < length (tasks s)"
    and a: "tasks s ! i = AwaitJson a" and b: "tasks s ! j = AwaitJson b" and ab: "a \<noteq> b"
  shows "app_run s [Json_settles i r1, Json_settles (j - 1) r2]
           = app_run s [Json_settles j r2, Json_settles i r1]
         \<and> app_run s [Json_settles j r2, Json_settles i r1] \<noteq> None"
proof -
  have t1: "remove_nth i (tasks s) ! (j - 1) = AwaitJson b"
    using nth_remove_nth_ge [of i "j - 1" "tasks s"] ij b by simp
  have t2: "remove_nth j (tasks s) ! i = AwaitJson a"
    using nth_remove_nth_less [of i j "tasks s"] ij a by simp
  show ?thesis
    using ij a b t1 t2 set_text_commute [OF ab] remove_nth_remove_nth [OF ij]
    by (simp add: json_settled_def) linarith
qed

theorem json_settles_commute_witness:
  "app_run \<lparr>markers = [], tasks = [AwaitJson 1, AwaitJson 2]\<rparr>
      [Json_settles 0 (JsonRejected TypeError), Json_settles (1 - 1) (JsonResolved Null)]
   = app_run \<lparr>markers = [], tasks = [AwaitJson 1, AwaitJson 2]\<rparr>
      [Json_settles 1 (JsonResolved Null), Json_settles 0 (JsonRejected TypeError)]"
  using json_settles_commute [of 0 1 "\<lparr>markers = [], tasks = [AwaitJson 1, AwaitJson 2]\<rparr>" 1 2
      "JsonRejected TypeError" "JsonResolved Null"]
  by simp

text \<open>
  C5 (every request completes). Whatever the network does, a pending task ends
  after at most two settle events (the fetch, then the body), and it leaves the
  set of pending requests.
\<close>

theorem every_task_completes:
  assumes i: "i < length (tasks s)"
  shows "\<exists>es s'. length es \<le> 2 \<and> set es \<subseteq> {Fetch_settles i f, Json_settles i r}
           \<and> app_run s es = Some s' \<and> pending_ids s' = remove_nth i (pending_ids s)"
proof (cases "tasks s ! i")
  case (AwaitFetch tid ll)
  show ?thesis
  proof (cases f)
    case (FetchRejected err)
    have "app_run s [Fetch_settles i f] = Some (fetch_settled i tid f s)"
      using i AwaitFetch by simp
    moreover have "pending_ids (fetch_settled i tid f s) = remove_nth i (pending_ids s)"
      using FetchRejected by (simp add: fetch_settled_def)
    ultimately show ?thesis
      by (intro exI [of _ "[Fetch_settles i f]"]) auto
  next
    case (FetchResolved status)
    let ?s1 = "fetch_settled i tid f s"
    have s1: "tasks ?s1 ! i = AwaitJson tid" "i < length (tasks ?s1)"
      using i FetchResolved by (simp_all add: fetch_settled_def)
    have "app_run s [Fetch_settles i f, Json_settles i r] = Some (json_settled i tid r ?s1)"
      using i AwaitFetch s1 by simp
    moreover have "pending_ids (json_settled i tid r ?s1) = remove_nth i (pending_ids s)"
      using i AwaitFetch FetchResolved
      by (simp add: fetch_settled_def json_settled_def pending_ids_def map_remove_nth)
    ultimately show ?thesis
      by (intro exI [of _ "[Fetch_settles i f, Json_settles i r]"]) auto
  qed
next
  case (AwaitJson tid)
  have "app_run s [Json_settles i r] = Some (json_settled i tid r s)"
    using i AwaitJson by simp
  then show ?thesis
    by (intro exI [of _ "[Json_settles i r]"]) (auto simp add: json_settled_def)
qed

theorem every_task_completes_witness:
  "0 < length (tasks (add_new_marker 1000 \<lparr>lat = 35, lng = 139\<rparr> init_state))
   \<and> (\<exists>es s'. length es \<le> 2
        \<and> set es \<subseteq> {Fetch_settles 0 (FetchResolved 200), Json_settles 0 (JsonResolved Null)}
        \<and> app_run (add_new_marker 1000 \<lparr>lat = 35, lng = 139\<rparr> init_state) es = Some s'
        \<and> pending_ids s' = remove_nth 0 (pending_ids (add_new_marker 1000 \<lparr>lat = 35, lng = 139\<rparr> init_state)))"
  using every_task_completes [of 0 "add_new_marker 1000 \<lparr>lat = 35, lng = 139\<rparr> init_state"
      "FetchResolved 200" "JsonResolved Null"]
  by (simp add: model_simps)

text \<open>
  C6 (network failure). When the request's \<open>fetch\<close> rejects, the \<open>catch\<close> block
  gives exactly the markers with the request's id the failure text; every marker
  keeps its id and position, no other label changes, and the request ends.
\<close>

theorem network_failure_sets_failure_text:
  assumes i: "i < length (tasks s)" and t: "tasks s ! i = AwaitFetch tid ll"
  shows "\<exists>s'. app_step s (Fetch_settles i (FetchRejected err)) = Some s'
     \<and> map marker_key (markers s') = map marker_key (markers s)
     \<and> (\<forall>j < length (markers s). marker_text (markers s' ! j) =
          (if marker_id (markers s ! j) = Some tid then Str failure_text
           else marker_text (markers s ! j)))
     \<and> pending_ids s' = remove_nth i (pending_ids s)"
  using i t by (simp add: fetch_settled_def set_text_nth)

theorem network_failure_sets_failure_text_witness:
  "0 < length (tasks (add_new_marker 0 \<lparr>lat = 0, lng = 0\<rparr> init_state))
   \<and> tasks (add_new_marker 0 \<lparr>lat = 0, lng = 0\<rparr> init_state) ! 0 = AwaitFetch 0 \<lparr>lat = 0, lng = 0\<rparr>
   \<and> (\<exists>s'. app_step (add_new_marker 0 \<lparr>lat = 0, lng = 0\<rparr> init_state)
          (Fetch_settles 0 (FetchRejected TypeError)) = Some s'
        \<and> marker_text (markers s' ! 1) = Str failure_text)"
proof -
  let ?s = "add_new_marker 0 \<lparr>lat = 0, lng = 0\<rparr> init_state"
  have h: "0 < length (tasks ?s)" "tasks ?s ! 0 = AwaitFetch 0 \<lparr>lat = 0, lng = 0\<rparr>"
    by (simp_all add: model_simps)
  from network_failure_sets_failure_text [OF h, of TypeError] obtain s' where
    "app_step ?s (Fetch_settles 0 (FetchRejected TypeError)) = Some s'"
    "\<forall>j < length (markers ?s). marker_text (markers s' ! j) =
       (if marker_id (markers ?s ! j) = Some 0 then Str failure_text else marker_text (markers ?s ! j))"
    by blast
  with h show ?thesis by (auto simp add: model_simps)
qed

text \<open>
  C7 (body failure). When \<open>response.json()\<close> rejects, or the body is \<open>null\<close> so
  that \<open>data.display_name\<close> throws, the request's marker gets the failure text
  and keeps its id and position; other markers are unchanged.
\<close>

theorem body_failure_sets_failure_text:
  assumes i: "i < length (tasks s)" and t: "tasks s ! i = AwaitJson tid"
    and r: "r = JsonRejected err \<or> r = JsonResolved Null"
  shows "\<exists>s'. app_step s (Json_settles i r) = Some s'
     \<and> map marker_key (markers s') = map marker_key (markers s)
     \<and> (\<forall>j < length (markers s). marker_text (markers s' ! j) =
          (if marker_id (markers s ! j) = Some tid then Str failure_text
           else marker_text (markers s ! j)))"
proof -
  have "address_label r = Str failure_text"
    using r by (auto simp add: address_label_def)
  then show ?thesis using i t by (simp add: json_settled_def set_text_nth)
qed

theorem body_failure_sets_failure_text_witness:
  "0 < length (tasks \<lparr>markers = [temp_marker 7 \<lparr>lat = 0, lng = 0\<rparr>], tasks = [AwaitJson 7]\<rparr>)
   \<and> (\<exists>s'. app_step \<lparr>markers = [temp_marker 7 \<lparr>lat = 0, lng = 0\<rparr>], tasks = [AwaitJson 7]\<rparr>
          (Json_settles 0 (JsonRejected SyntaxError)) = Some s'
        \<and> marker_text (markers s' ! 0) = Str failure_text)"
proof -
  let ?s = "\<lparr>markers = [temp_marker 7 \<lparr>lat = 0, lng = 0\<rparr>], tasks = [AwaitJson 7]\<rparr>"
  from body_failure_sets_failure_text [of 0 ?s 7 "JsonRejected SyntaxError" SyntaxError]
  obtain s' where "app_step ?s (Json_settles 0 (JsonRejected SyntaxError)) = Some s'"
    "\<forall>j < length (markers ?s). marker_text (markers s' ! j) =
       (if marker_id (markers ?s ! j) = Some 7 then Str failure_text else marker_text (markers ?s ! j))"
    by auto
  then show ?thesis by (auto simp add: temp_marker_def)
qed

text \<open>
  C8 (address). When the body is an object whose \<open>display_name\<close> member is a
  string, that string replaces the label of the request's markers.
\<close>

theorem address_replaces_label:
  assumes i: "i < length (tasks s)" and t: "tasks s ! i = AwaitJson tid"
    and dn: "map_of (rev kvs) ''display_name'' = Some (Str addr)"
  shows "\<exists>s'. app_step s (Json_settles i (JsonResolved (Obj kvs))) = Some s'
     \<and> map marker_key (markers s') = map marker_key (markers s)
     \<and> (\<forall>j < length (markers s). marker_text (markers s' ! j) =
          (if marker_id (markers s ! j) = Some tid then Str addr else marker_text (markers s ! j)))
     \<and> pending_ids s' = remove_nth i (pending_ids s)"
  using i t dn by (simp add: json_settled_def set_text_nth address_label_def)

theorem address_replaces_label_witness:
  "(\<exists>s'. app_step \<lparr>markers = [temp_marker 7 \<lparr>lat = 0, lng = 0\<rparr>], tasks = [AwaitJson 7]\<rparr>
          (Json_settles 0 (JsonResolved (Obj [(''display_name'', Str ''Tokyo'')]))) = Some s'
        \<and> marker_text (markers s' ! 0) = Str ''Tokyo'')"
proof -
  let ?s = "\<lparr>markers = [temp_marker 7 \<lparr>lat = 0, lng = 0\<rparr>], tasks = [AwaitJson 7]\<rparr>"
  from address_replaces_label [of 0 ?s 7 "[(''display_name'', Str ''Tokyo'')]" "''Tokyo''"]
  obtain s' where "app_step ?s (Json_settles 0 (JsonResolved (Obj [(''display_name'', Str ''Tokyo'')]))) = Some s'"
    "\<forall>j < length (markers ?s). marker_text (markers s' ! j) =
       (if marker_id (markers ?s ! j) = Some 7 then Str ''Tokyo'' else marker_text (markers ?s ! j))"
    by auto
  then show ?thesis by (auto simp add: temp_marker_def)
qed

text \<open>
  C9 (status not examined). The HTTP status of the response has no effect on the
  state: an error response goes on to \<open>response.json()\<close> exactly like a success.
\<close>

theorem http_status_ignored:
  "app_step s (Fetch_settles i (FetchResolved st1)) = app_step s (Fetch_settles i (FetchResolved st2))"
  by (simp add: fetch_settled_def split: task.splits)

text \<open>
  C10 (append only). Along any run, the markers of the start state stay, in order,
  as a prefix of the markers of the final state, with their ids and positions.
\<close>

theorem markers_append_only:
  "app_run s es = Some s' \<Longrightarrow> prefix (map marker_key (markers s)) (map marker_key (markers s'))"
proof (induction es arbitrary: s)
  case Nil
  then show ?case by simp
next
  case (Cons e es)
  then obtain s1 where s1: "app_step s e = Some s1" and r: "app_run s1 es = Some s'"
    by (auto split: option.splits)
  from s1 have "prefix (map marker_key (markers s)) (map marker_key (markers s1))"
    by (rule app_step_keys_prefix)
  then show ?case using Cons.IH [OF r] by (rule prefix_order.trans)
qed

theorem markers_append_only_witness:
  "app_run init_state [Click \<lparr>event_latlng = \<lparr>lat = 1, lng = 2\<rparr>\<rparr> 5]
     = Some (add_new_marker 5 \<lparr>lat = 1, lng = 2\<rparr> init_state)
   \<and> prefix (map marker_key (markers init_state))
       (map marker_key (markers (add_new_marker 5 \<lparr>lat = 1, lng = 2\<rparr> init_state)))"
proof -
  have r: "app_run init_state [Click \<lparr>event_latlng = \<lparr>lat = 1, lng = 2\<rparr>\<rparr> 5]
     = Some (add_new_marker 5 \<lparr>lat = 1, lng = 2\<rparr> init_state)"
    by (simp add: click_handle_def)
  show ?thesis using r markers_append_only [OF r] by simp
qed

end
