(* ===== verification/To_Fixed.thy ===== *)
theory To_Fixed
  imports Prelude
begin

text \<open>
  \<open>Number.prototype.toFixed\<close> as ECMA-262 (section 21.1.3.3) defines it, applied in
  the popup text of \<^verbatim>\<open>src/src/App.jsx\<close> line 92 as \<open>lat.toFixed(4)\<close> and
  \<open>lng.toFixed(4)\<close>. The argument is the exact value of the double. The integer
  \<open>n\<close> nearest to \<open>x * 10^f\<close>, the larger one on a tie, is
  \<open>floor (x * 10^f + 1/2)\<close>; its decimal digits are padded with zeros to more than
  \<open>f\<close> digits and a point is put before the last \<open>f\<close>. Values with
  \<open>|x| \<ge> 10^21\<close> are printed by \<open>Number::toString\<close> instead, which is not modelled:
  \<open>to_fixed\<close> returns \<open>None\<close> there. \<open>read_fixed\<close> gives the value a decimal
  string denotes; it is used to state what \<open>to_fixed\<close> prints.
\<close>

definition digit_char :: "int \<Rightarrow> char" where
  "digit_char d = ''0123456789'' ! nat d"

function int_digits :: "int \<Rightarrow> js_string" where
  "int_digits n =
     (if n < 10 then [digit_char n] else int_digits (n div 10) @ [digit_char (n mod 10)])"
  by pat_completeness auto
termination
  by (relation "measure nat") auto

definition to_fixed :: "nat \<Rightarrow> js_number \<Rightarrow> js_string option" where
  "to_fixed f x =
     (let s = (if x < 0 then ''-'' else ''''); a = \<bar>x\<bar> in
      if 10 ^ 21 \<le> a then None
      else let n = \<lfloor>a * 10 ^ f + 1 / 2\<rfloor>; m = int_digits n in
        if f = 0 then Some (s @ m)
        else let k = length m;
                 m' = (if k \<le> f then replicate (f + 1 - k) (CHR ''0'') @ m else m);
                 k' = max k (f + 1)
             in Some (s @ take (k' - f) m' @ ''.'' @ drop (k' - f) m'))"

definition digit_value :: "char \<Rightarrow> int" where
  "digit_value c = int (of_char c) - 48"

definition digits_value :: "js_string \<Rightarrow> int" where
  "digits_value cs = foldl (\<lambda>acc c. 10 * acc + digit_value c) 0 cs"

definition read_fixed :: "js_string \<Rightarrow> js_number" where
  "read_fixed t =
     (let (sg, u) = (if take 1 t = ''-'' then (-1, drop 1 t) else (1, t));
          a = takeWhile (\<lambda>c. c \<noteq> CHR ''.'') u;
          b = drop 1 (dropWhile (\<lambda>c. c \<noteq> CHR ''.'') u)
      in sg * of_int (digits_value (a @ b)) / 10 ^ length b)"

text \<open>The number of digits after the point of a decimal numeral.\<close>

definition decimals :: "js_string \<Rightarrow> nat" where
  "decimals t = length (drop 1 (dropWhile (\<lambda>c. c \<noteq> CHR ''.'') t))"

declare int_digits.simps [simp del]

lemma digit_char_value:
  assumes "0 \<le> d" and "d < 10"
  shows "digit_value (digit_char d) = d \<and> digit_char d \<noteq> CHR ''.'' \<and> digit_char d \<noteq> CHR ''-''"
proof -
  have "d = 0 \<or> d = 1 \<or> d = 2 \<or> d = 3 \<or> d = 4 \<or> d = 5 \<or> d = 6 \<or> d = 7 \<or> d = 8 \<or> d = 9"
    using assms by presburger
  then show ?thesis
    by (elim disjE) (simp_all add: digit_char_def digit_value_def)
qed

lemma digits_value_snoc: "digits_value (cs @ [c]) = 10 * digits_value cs + digit_value c"
  by (simp add: digits_value_def)

lemma int_digits_props:
  "0 \<le> n \<Longrightarrow> digits_value (int_digits n) = n
     \<and> (\<forall>c \<in> set (int_digits n). c \<noteq> CHR ''.'' \<and> c \<noteq> CHR ''-'') \<and> int_digits n \<noteq> []"
proof (induction n rule: int_digits.induct)
  case (1 n)
  show ?case
  proof (cases "n < 10")
    case True
    then show ?thesis using "1.prems" digit_char_value [of n]
      by (simp add: int_digits.simps [of n] digits_value_def)
  next
    case False
    then have IH: "digits_value (int_digits (n div 10)) = n div 10
        \<and> (\<forall>c \<in> set (int_digits (n div 10)). c \<noteq> CHR ''.'' \<and> c \<noteq> CHR ''-'')"
      using "1.IH" "1.prems" by simp
    have "0 \<le> n mod 10" "n mod 10 < 10" by simp_all
    then have "digit_value (digit_char (n mod 10)) = n mod 10"
      and "digit_char (n mod 10) \<noteq> CHR ''.''" and "digit_char (n mod 10) \<noteq> CHR ''-''"
      using digit_char_value by blast+
    with IH False show ?thesis
      by (simp add: int_digits.simps [of n] digits_value_snoc)
  qed
qed

lemma digits_value_zeros: "digits_value (replicate k (CHR ''0'') @ m) = digits_value m"
proof -
  have "foldl (\<lambda>acc c. 10 * acc + digit_value c) 0 (replicate k (CHR ''0'')) = 0"
    by (induction k) (simp_all add: digit_value_def)
  then show ?thesis by (simp add: digits_value_def)
qed

lemma to_fixed_shape:
  assumes f: "0 < f" and x: "\<bar>x\<bar> < 10 ^ 21"
  shows "\<exists>a b. to_fixed f x = Some ((if x < 0 then ''-'' else '''') @ a @ ''.'' @ b)
     \<and> a \<noteq> [] \<and> length b = f \<and> (\<forall>c \<in> set (a @ b). c \<noteq> CHR ''.'' \<and> c \<noteq> CHR ''-'')
     \<and> digits_value (a @ b) = \<lfloor>\<bar>x\<bar> * 10 ^ f + 1 / 2\<rfloor>"
proof -
  define n where "n = \<lfloor>\<bar>x\<bar> * 10 ^ f + 1 / 2\<rfloor>"
  have "0 \<le> \<bar>x\<bar> * 10 ^ f + 1 / 2" by simp
  then have n0: "0 \<le> n" unfolding n_def by linarith
  define m where "m = int_digits n"
  have m: "digits_value m = n" "\<forall>c \<in> set m. c \<noteq> CHR ''.'' \<and> c \<noteq> CHR ''-''"
    using int_digits_props [OF n0] by (simp_all add: m_def)
  define m' where "m' = (if length m \<le> f then replicate (f + 1 - length m) (CHR ''0'') @ m else m)"
  define k' where "k' = max (length m) (f + 1)"
  have lm': "length m' = k'" by (simp add: m'_def k'_def)
  have vm': "digits_value m' = n" using m by (simp add: m'_def digits_value_zeros)
  have cm': "\<forall>c \<in> set m'. c \<noteq> CHR ''.'' \<and> c \<noteq> CHR ''-''" using m by (auto simp add: m'_def)
  have "to_fixed f x = Some ((if x < 0 then ''-'' else '''') @ take (k' - f) m' @ ''.'' @ drop (k' - f) m')"
    using f x by (simp add: to_fixed_def Let_def n_def m_def m'_def k'_def)
  moreover have "take (k' - f) m' \<noteq> []"
  proof -
    have "m' \<noteq> []" using lm' by (auto simp add: k'_def)
    then show ?thesis by (simp add: k'_def)
  qed
  moreover have "length (drop (k' - f) m') = f" using lm' by (simp add: k'_def)
  moreover have "take (k' - f) m' @ drop (k' - f) m' = m'" by simp
  ultimately show ?thesis using vm' cm' n_def by metis
qed

lemma read_fixed_shape:
  assumes s: "s = ''-'' \<or> s = ''''" and a: "a \<noteq> []"
    and cs: "\<forall>c \<in> set (a @ b). c \<noteq> CHR ''.'' \<and> c \<noteq> CHR ''-''"
  shows "read_fixed (s @ a @ ''.'' @ b) =
     (if s = ''-'' then -1 else 1) * of_int (digits_value (a @ b)) / 10 ^ length b"
proof -
  have tw: "takeWhile (\<lambda>c. c \<noteq> CHR ''.'') (a @ ''.'' @ b) = a"
    using cs by (simp add: takeWhile_append2)
  have dw: "dropWhile (\<lambda>c. c \<noteq> CHR ''.'') (a @ ''.'' @ b) = CHR ''.'' # b"
    using cs by (simp add: dropWhile_append2)
  have hd: "take 1 (a @ ''.'' @ b) \<noteq> ''-''"
    using a cs by (cases a) auto
  show ?thesis using s
  proof
    assume "s = ''-''"
    then show ?thesis using tw dw by (simp add: read_fixed_def)
  next
    assume "s = ''''"
    then show ?thesis using tw dw hd by (simp add: read_fixed_def)
  qed
qed

lemma round_half_up_bound:
  fixes y :: rat
  shows "\<bar>of_int \<lfloor>y + 1 / 2\<rfloor> - y\<bar> \<le> 1 / 2"
proof -
  have "of_int \<lfloor>y + 1 / 2\<rfloor> \<le> y + 1 / 2" by (rule of_int_floor_le)
  moreover have "y + 1 / 2 < of_int \<lfloor>y + 1 / 2\<rfloor> + 1" using floor_eq_iff by blast
  ultimately show ?thesis by linarith
qed

lemma to_fixed_value:
  assumes f: "0 < f" and x: "\<bar>x\<bar> < 10 ^ 21"
  shows "\<exists>t. to_fixed f x = Some t
     \<and> read_fixed t = (if x < 0 then -1 else 1) * of_int \<lfloor>\<bar>x\<bar> * 10 ^ f + 1 / 2\<rfloor> / 10 ^ f"
proof -
  obtain a b where t: "to_fixed f x = Some ((if x < 0 then ''-'' else '''') @ a @ ''.'' @ b)"
    and a: "a \<noteq> []" and lb: "length b = f"
    and cs: "\<forall>c \<in> set (a @ b). c \<noteq> CHR ''.'' \<and> c \<noteq> CHR ''-''"
    and v: "digits_value (a @ b) = \<lfloor>\<bar>x\<bar> * 10 ^ f + 1 / 2\<rfloor>"
    using to_fixed_shape [OF f x] by blast
  have s: "(if x < 0 then ''-'' else '''') = ''-'' \<or> (if x < 0 then ''-'' else '''') = ''''"
    by simp
  from read_fixed_shape [OF s a cs] v lb t show ?thesis by simp
qed

lemma to_fixed_roundtrip:
  assumes f: "0 < f" and x: "\<bar>of_int k / 10 ^ f :: js_number\<bar> < 10 ^ 21"
  shows "\<exists>t. to_fixed f (of_int k / 10 ^ f) = Some t \<and> read_fixed t = of_int k / 10 ^ f"
proof -
  have pos: "(0::rat) < 10 ^ f" by simp
  have eq: "\<bar>of_int k / 10 ^ f :: rat\<bar> * 10 ^ f + 1 / 2 = of_int \<bar>k\<bar> + 1 / 2"
    using pos by (simp add: abs_divide)
  have fl: "\<lfloor>\<bar>of_int k / 10 ^ f :: rat\<bar> * 10 ^ f + 1 / 2\<rfloor> = \<bar>k\<bar>"
    unfolding eq by (rule floor_unique) simp_all
  have sg: "(of_int k / 10 ^ f < (0::rat)) = (k < 0)"
    using pos by (simp add: divide_less_0_iff)
  from to_fixed_value [OF f x] obtain t where
    "to_fixed f (of_int k / 10 ^ f) = Some t"
    "read_fixed t = (if of_int k / 10 ^ f < (0::rat) then -1 else 1)
        * of_int \<lfloor>\<bar>of_int k / 10 ^ f :: rat\<bar> * 10 ^ f + 1 / 2\<rfloor> / 10 ^ f"
    by blast
  then show ?thesis using fl sg by (auto simp add: abs_if)
qed

lemma to_fixed_error_bound:
  assumes f: "0 < f" and x: "\<bar>x\<bar> < 10 ^ 21"
  shows "\<exists>t. to_fixed f x = Some t \<and> \<bar>read_fixed t - x\<bar> \<le> 1 / (2 * 10 ^ f)"
proof -
  from to_fixed_value [OF f x] obtain t where t: "to_fixed f x = Some t"
    and r: "read_fixed t = (if x < 0 then -1 else 1) * of_int \<lfloor>\<bar>x\<bar> * 10 ^ f + 1 / 2\<rfloor> / 10 ^ f"
    by blast
  define n where "n = \<lfloor>\<bar>x\<bar> * 10 ^ f + 1 / 2\<rfloor>"
  have pos: "(0::rat) < 10 ^ f" by simp
  have b: "\<bar>of_int n - \<bar>x\<bar> * 10 ^ f\<bar> \<le> 1 / 2"
    unfolding n_def by (rule round_half_up_bound)
  have "\<bar>read_fixed t - x\<bar> = \<bar>of_int n / 10 ^ f - \<bar>x\<bar>\<bar>"
    using r by (auto simp add: n_def abs_if algebra_simps)
  also have "\<dots> = \<bar>(of_int n - \<bar>x\<bar> * 10 ^ f) / 10 ^ f\<bar>"
    using pos by (simp add: field_simps)
  also have "\<dots> = \<bar>of_int n - \<bar>x\<bar> * 10 ^ f\<bar> / 10 ^ f"
    using pos by (simp add: abs_divide)
  also have "\<dots> \<le> (1 / 2) / 10 ^ f"
    using pos by (intro divide_right_mono [OF b]) simp
  finally show ?thesis using t by simp
qed

lemma to_fixed_decimals:
  assumes f: "0 < f" and x: "\<bar>x\<bar> < 10 ^ 21" and t: "to_fixed f x = Some t"
  shows "decimals t = f"
proof -
  obtain a b where t': "to_fixed f x = Some ((if x < 0 then ''-'' else '''') @ a @ ''.'' @ b)"
    and lb: "length b = f" and cs: "\<forall>c \<in> set (a @ b). c \<noteq> CHR ''.'' \<and> c \<noteq> CHR ''-''"
    using to_fixed_shape [OF f x] by blast
  have "dropWhile (\<lambda>c. c \<noteq> CHR ''.'') ((if x < 0 then ''-'' else '''') @ a @ ''.'' @ b) = ''.'' @ b"
    using cs by (simp add: dropWhile_append2)
  then show ?thesis using t t' lb by (simp add: decimals_def)
qed

end
