(* ===== verification/Renderer.thy ===== *)
theory Renderer
  imports Marker_Controller To_Fixed
begin

text \<open>
  The rendering half of \<^verbatim>\<open>src/src/App.jsx\<close>: \<open>markers.map((markers, index) =>
  <AutoOpenMarker key={index} ...>)\<close> (lines 87-95), the popup children of each pin
  (lines 89-93) and the component \<open>AutoOpenMarker\<close> (lines 24-37), whose effect
  with an empty dependency list opens the popup once, when the pin mounts.

  A popup's children are rendered as React renders them: a string as a text node, a
  number as a number's text, \<open>undefined\<close>, \<open>null\<close> and booleans as nothing, an array
  element by element, and an object raises ``Objects are not valid as a React
  child''. \<open>commit\<close> reconciles the pins with the mounted ones by key: a key not
  mounted before mounts and its effect runs; an error during rendering unmounts the
  whole tree, as React does without an error boundary.
\<close>

datatype rnode = RText js_string | RNum js_number | RBr

datatype render_error = ObjectsNotValidAsChild

fun render_child :: "js_val \<Rightarrow> render_error + rnode list"
  and render_children :: "js_val list \<Rightarrow> render_error + rnode list" where
  "render_child Undefined = Inr []"
| "render_child Null = Inr []"
| "render_child (Bool b) = Inr []"
| "render_child (Num n) = Inr [RNum n]"
| "render_child (Str s) = Inr [RText s]"
| "render_child (Arr vs) = render_children vs"
| "render_child (Obj kvs) = Inl ObjectsNotValidAsChild"
| "render_children [] = Inr []"
| "render_children (v # vs) =
     (case render_child v of
        Inl e \<Rightarrow> Inl e
      | Inr ns \<Rightarrow> (case render_children vs of Inl e \<Rightarrow> Inl e | Inr ns' \<Rightarrow> Inr (ns @ ns')))"

text \<open>The literal before the coordinates, the Chinese for ``coordinates:''.\<close>

definition coord_prefix :: js_string where
  "coord_prefix = [CHR 0xE5, CHR 0x9D, CHR 0x90, CHR 0xE6, CHR 0xA0, CHR 0x87, CHR 0xEF, CHR 0xBC, CHR 0x9A]"

text \<open>\<open>markers.lat.toFixed(4)\<close> and \<open>markers.lng.toFixed(4)\<close>.\<close>

definition coord_text :: "marker \<Rightarrow> (js_string \<times> js_string) option" where
  "coord_text m =
     (case (to_fixed 4 (marker_lat m), to_fixed 4 (marker_lng m)) of
        (Some a, Some b) \<Rightarrow> Some (a, b)
      | _ \<Rightarrow> None)"

text \<open>
  The children of \<open><Popup>\<close>: the label, \<open><br />\<close>, the prefix, the latitude, a comma
  and the longitude. \<open>None\<close>: a coordinate in the \<open>Number::toString\<close> branch of
  \<open>toFixed\<close>, which is not modelled.
\<close>

definition popup_content :: "marker \<Rightarrow> (render_error + rnode list) option" where
  "popup_content m =
     map_option (\<lambda>(a, b).
        case render_child (marker_text m) of
          Inl e \<Rightarrow> Inl e
        | Inr ns \<Rightarrow> Inr (ns @ [RBr, RText coord_prefix, RText a, RText '','', RText b]))
       (coord_text m)"

record pin =
  pin_key :: nat
  pin_position :: "js_number \<times> js_number"
  pin_popup :: "(render_error + rnode list) option"

definition render_pins :: "marker list \<Rightarrow> pin list" where
  "render_pins ms =
     map (\<lambda>(i, m). \<lparr>pin_key = i, pin_position = (marker_lat m, marker_lng m),
                   pin_popup = popup_content m\<rparr>) (enumerate 0 ms)"

datatype effect = OpenPopup nat

text \<open>
  The effect of \<open>AutoOpenMarker\<close>: \<open>if (markerRef.current)
  markerRef.current.openPopup()\<close>; the ref holds the mounted Leaflet marker, named
  here by its key.
\<close>

definition auto_open_effect :: "nat option \<Rightarrow> effect list" where
  "auto_open_effect marker_ref = (case marker_ref of None \<Rightarrow> [] | Some k \<Rightarrow> [OpenPopup k])"

definition render_crashes :: "pin list \<Rightarrow> bool" where
  "render_crashes pins =
     list_ex (\<lambda>p. case pin_popup p of Some (Inl e) \<Rightarrow> True | _ \<Rightarrow> False) pins"

datatype view = Live "nat list" | Crashed

definition commit :: "view \<Rightarrow> marker list \<Rightarrow> view \<times> effect list" where
  "commit v ms =
     (case v of
        Crashed \<Rightarrow> (Crashed, [])
      | Live mounted \<Rightarrow>
          (let pins = render_pins ms in
           if render_crashes pins then (Crashed, [])
           else let keys = map pin_key pins
                in (Live keys,
                    concat (map (\<lambda>k. auto_open_effect (Some k))
                      (filter (\<lambda>k. k \<notin> set mounted) keys)))))"

lemma map_pin_key_render_pins [simp]: "map pin_key (render_pins ms) = [0..<length ms]"
proof -
  have "map pin_key (render_pins ms) = map fst (enumerate 0 ms)"
    unfolding render_pins_def by (induction ms rule: rev_induct) (auto simp add: enumerate_append_eq)
  then show ?thesis by (simp add: map_fst_enumerate)
qed

lemma render_pins_snoc:
  "render_pins (ms @ [m]) = render_pins ms @
     [\<lparr>pin_key = length ms, pin_position = (marker_lat m, marker_lng m), pin_popup = popup_content m\<rparr>]"
  by (simp add: render_pins_def enumerate_append_eq)

lemma render_crashes_snoc:
  "render_crashes (ps @ [p]) \<longleftrightarrow> render_crashes ps \<or> (\<exists>e. pin_popup p = Some (Inl e))"
  by (auto simp add: render_crashes_def split: option.splits sum.splits)

lemma concat_auto_open [simp]:
  "concat (map (\<lambda>k. auto_open_effect (Some k)) ks) = map OpenPopup ks"
  by (induction ks) (simp_all add: auto_open_effect_def)

lemma filter_upt_notin:
  "n \<le> n' \<Longrightarrow> filter (\<lambda>k. \<not> k < n) [0..<n'] = [n..<n']"
proof -
  assume "n \<le> n'"
  then have "[0..<n'] = [0..<n] @ [n..<n']" by (metis le0 upt_add_eq_append add_0 le_add_diff_inverse)
  then show ?thesis by (simp add: filter_empty_conv)
qed

lemma popup_content_error:
  "popup_content m = Some (Inl e) \<Longrightarrow> render_child (marker_text m) = Inl e"
  by (cases "render_child (marker_text m)") (auto simp add: popup_content_def)

lemma placeholder_popup_renders:
  "popup_content (temp_marker now ll) \<noteq> Some (Inl e)"
  by (auto simp add: popup_content_def temp_marker_def split: prod.splits)

text \<open>
  C15 (the popup shows the marker's coordinates). For every marker whose label
  renders and whose coordinates are below \<open>10^21\<close> in magnitude, the popup is the
  label, a line break, the prefix, then the latitude and the longitude, in that
  order and separated by a comma, each printed with exactly four decimals and within
  half a unit of the fourth decimal of the coordinate.
\<close>

theorem popup_shows_coordinates:
  assumes la: "\<bar>marker_lat m\<bar> < 10 ^ 21" and ln: "\<bar>marker_lng m\<bar> < 10 ^ 21"
    and r: "render_child (marker_text m) = Inr ns"
  shows "\<exists>a b. popup_content m = Some (Inr (ns @ [RBr, RText coord_prefix, RText a, RText '','', RText b]))
    \<and> \<bar>read_fixed a - marker_lat m\<bar> \<le> 1 / 20000 \<and> \<bar>read_fixed b - marker_lng m\<bar> \<le> 1 / 20000
    \<and> decimals a = 4 \<and> decimals b = 4"
proof -
  obtain a where a: "to_fixed 4 (marker_lat m) = Some a" "\<bar>read_fixed a - marker_lat m\<bar> \<le> 1 / 20000"
    using to_fixed_error_bound [of 4, OF _ la] by auto
  obtain b where b: "to_fixed 4 (marker_lng m) = Some b" "\<bar>read_fixed b - marker_lng m\<bar> \<le> 1 / 20000"
    using to_fixed_error_bound [of 4, OF _ ln] by auto
  have "decimals a = 4" "decimals b = 4"
    using to_fixed_decimals [OF _ la a(1)] to_fixed_decimals [OF _ ln b(1)] by simp_all
  then show ?thesis using a b r by (simp add: popup_content_def coord_text_def)
qed

theorem popup_shows_coordinates_witness:
  "\<bar>marker_lat (hd initial_markers)\<bar> < 10 ^ 21 \<and> \<bar>marker_lng (hd initial_markers)\<bar> < 10 ^ 21
   \<and> render_child (marker_text (hd initial_markers)) = Inr [RText initial_text]
   \<and> (\<exists>a b. popup_content (hd initial_markers) =
          Some (Inr ([RText initial_text] @ [RBr, RText coord_prefix, RText a, RText '','', RText b]))
        \<and> \<bar>read_fixed a - marker_lat (hd initial_markers)\<bar> \<le> 1 / 20000
        \<and> \<bar>read_fixed b - marker_lng (hd initial_markers)\<bar> \<le> 1 / 20000
        \<and> decimals a = 4 \<and> decimals b = 4)"
proof -
  have h: "\<bar>marker_lat (hd initial_markers)\<bar> < 10 ^ 21" "\<bar>marker_lng (hd initial_markers)\<bar> < 10 ^ 21"
    "render_child (marker_text (hd initial_markers)) = Inr [RText initial_text]"
    by (simp_all add: initial_markers_def initial_lat_def initial_lng_def)
  show ?thesis using popup_shows_coordinates [OF h] h by simp
qed

end
