(* ===== verification/App_System.thy ===== *)
theory App_System
  imports Renderer
begin

text \<open>
  The whole component \<open>App\<close>: the controller's state and the mounted view, with the
  log of \<open>openPopup\<close> calls made by \<open>AutoOpenMarker\<close> effects. After the
  initial render and after every event that changes the state, React renders
  \<open>App\<close> again and commits (\<open>sys_commit\<close>). Once the tree has crashed no handler
  runs any more: the map and its click listener are gone and later \<open>setMarkers\<close>
  calls have no effect.
\<close>

record sys_state =
  app :: app_state
  view :: view
  opened :: "effect list"

definition sys_commit :: "sys_state \<Rightarrow> sys_state" where
  "sys_commit \<sigma> =
     (case commit (view \<sigma>) (markers (app \<sigma>)) of
        (v, effs) \<Rightarrow> \<sigma>\<lparr>view := v, opened := opened \<sigma> @ effs\<rparr>)"

definition sys_init :: sys_state where
  "sys_init = sys_commit \<lparr>app = init_state, view = Live [], opened = []\<rparr>"

fun sys_step :: "sys_state \<Rightarrow> event \<Rightarrow> sys_state option" where
  "sys_step \<sigma> e =
     (if view \<sigma> = Crashed then None
      else map_option (\<lambda>s'. sys_commit (\<sigma>\<lparr>app := s'\<rparr>)) (app_step (app \<sigma>) e))"

fun sys_run :: "sys_state \<Rightarrow> event list \<Rightarrow> sys_state option" where
  "sys_run \<sigma> [] = Some \<sigma>"
| "sys_run \<sigma> (e # es) = (case sys_step \<sigma> e of None \<Rightarrow> None | Some \<sigma>' \<Rightarrow> sys_run \<sigma>' es)"

inductive sys_reachable :: "sys_state \<Rightarrow> bool" where
  init: "sys_reachable sys_init"
| step: "sys_reachable \<sigma> \<Longrightarrow> sys_step \<sigma> e = Some \<sigma>' \<Longrightarrow> sys_reachable \<sigma>'"

definition sys_inv :: "sys_state \<Rightarrow> bool" where
  "sys_inv \<sigma> =
     (case view \<sigma> of
        Crashed \<Rightarrow> True
      | Live keys \<Rightarrow> keys = [0..<length (markers (app \<sigma>))]
          \<and> opened \<sigma> = map OpenPopup keys
          \<and> \<not> render_crashes (render_pins (markers (app \<sigma>))))"

text \<open>
  The configuration \<open>App\<close> passes to the map widget (lines 11 and 78-83): the
  initial centre \<open>initialPosition\<close>, the zoom level, scroll-wheel zoom and the tile
  layer's URL template and attribution. The widget itself (tiles, projection, pan and
  zoom, hit-testing) is the environment; a click reaches the model as the
  coordinate of a \<open>Click\<close> event.
\<close>

record tile_layer =
  tile_url :: js_string
  tile_attribution :: js_string

record map_config =
  map_center :: "js_number \<times> js_number"
  map_zoom :: int
  scroll_wheel_zoom :: bool
  map_tiles :: tile_layer

definition initial_position :: "js_number \<times> js_number" where
  "initial_position = (initial_lat, initial_lng)"

definition app_map_config :: map_config where
  \<open>app_map_config =
     \<lparr>map_center = initial_position, map_zoom = 13, scroll_wheel_zoom = True,
      map_tiles = \<lparr>tile_url = ''https://{s}.tile.openstreetmap.org/{z}/{x}/{y}.png'',
                   tile_attribution =
                     ''&copy; <a href="https://www.openstreetmap.org/copyright">OpenStreetMap</a> contributors''\<rparr>\<rparr>\<close>

lemma app_step_length_mono:
  "app_step s e = Some s' \<Longrightarrow> length (markers s) \<le> length (markers s')"
  using prefix_length_le [OF app_step_keys_prefix] by simp

lemma app_step_settle_length:
  "app_step s e = Some s' \<Longrightarrow> settled_task e \<noteq> None \<Longrightarrow> length (markers s') = length (markers s)"
  by (erule app_step_SomeE) (auto simp add: fetch_settled_def json_settled_def split: fetch_outcome.splits)

lemma commit_live:
  assumes "n \<le> length ms"
  shows "commit (Live [0..<n]) ms =
     (if render_crashes (render_pins ms) then (Crashed, [])
      else (Live [0..<length ms], map OpenPopup [n..<length ms]))"
  using assms by (simp add: commit_def Let_def filter_upt_notin)

lemma initial_markers_render: "\<not> render_crashes (render_pins initial_markers)"
  by (auto simp add: initial_markers_def render_pins_def render_crashes_def
      dest!: popup_content_error split: option.splits sum.splits)

lemma sys_init_eq:
  "sys_init = \<lparr>app = init_state, view = Live [0], opened = [OpenPopup 0]\<rparr>"
  using commit_live [of 0 initial_markers] initial_markers_render
  by (simp add: sys_init_def sys_commit_def init_state_def initial_markers_def)

lemma sys_inv_init: "sys_inv sys_init"
  using initial_markers_render
  by (simp add: sys_init_eq sys_inv_def init_state_def initial_markers_def)

lemma sys_inv_step:
  assumes inv: "sys_inv \<sigma>" and st: "sys_step \<sigma> e = Some \<sigma>'"
  shows "sys_inv \<sigma>'"
proof -
  obtain s' where live: "view \<sigma> \<noteq> Crashed" and a: "app_step (app \<sigma>) e = Some s'"
    and \<sigma>': "\<sigma>' = sys_commit (\<sigma>\<lparr>app := s'\<rparr>)"
    using st by (auto split: if_splits)
  let ?n = "length (markers (app \<sigma>))"
  have v: "view \<sigma> = Live [0..<?n]" and o: "opened \<sigma> = map OpenPopup [0..<?n]"
    using inv live by (auto simp add: sys_inv_def split: view.splits)
  have le: "?n \<le> length (markers s')" using a by (rule app_step_length_mono)
  have "map OpenPopup [0..<?n] @ map OpenPopup [?n..<length (markers s')]
      = map OpenPopup [0..<length (markers s')]"
    using le by (metis map_append le0 upt_add_eq_append le_add_diff_inverse add_0)
  then show ?thesis
    using commit_live [OF le] v o
    by (simp add: \<sigma>' sys_commit_def sys_inv_def)
qed

lemma sys_reachable_inv: "sys_reachable \<sigma> \<Longrightarrow> sys_inv \<sigma>"
  by (induction rule: sys_reachable.induct) (auto intro: sys_inv_init sys_inv_step)

text \<open>
  C18 (popup opens once). In every reachable state of the live application, the
  \<open>openPopup\<close> calls made so far are exactly one per marker, in the order of the
  markers: each pin's popup opens on its first render and never again.
\<close>

theorem popup_opened_once_per_marker:
  assumes "sys_reachable \<sigma>" and "view \<sigma> \<noteq> Crashed"
  shows "opened \<sigma> = map OpenPopup [0..<length (markers (app \<sigma>))]"
  using sys_reachable_inv [OF assms(1)] assms(2)
  by (auto simp add: sys_inv_def split: view.splits)

theorem popup_opened_once_per_marker_witness:
  "sys_reachable sys_init \<and> view sys_init \<noteq> Crashed \<and> opened sys_init = [OpenPopup 0]"
proof -
  have r: "sys_reachable sys_init" by (rule sys_reachable.init)
  have nc: "view sys_init \<noteq> Crashed" by (simp add: sys_init_eq)
  have "length (markers (app sys_init)) = 1"
    by (simp add: sys_init_eq init_state_def initial_markers_def)
  with popup_opened_once_per_marker [OF r nc] r nc show ?thesis by simp
qed

text \<open>
  C19 (optimistic UI). In a live reachable state, a click is handled, the
  application stays live, the new marker is appended and its popup is opened in
  the same turn, before any network response.
\<close>

theorem click_opens_its_popup:
  assumes r: "sys_reachable \<sigma>" and live: "view \<sigma> \<noteq> Crashed"
  shows "\<exists>\<sigma>'. sys_step \<sigma> (Click ev now) = Some \<sigma>' \<and> view \<sigma>' \<noteq> Crashed
     \<and> markers (app \<sigma>') = markers (app \<sigma>) @ [temp_marker now (event_latlng ev)]
     \<and> opened \<sigma>' = opened \<sigma> @ [OpenPopup (length (markers (app \<sigma>)))]"
proof -
  let ?ms = "markers (app \<sigma>)"
  have inv: "sys_inv \<sigma>" using r by (rule sys_reachable_inv)
  then have v: "view \<sigma> = Live [0..<length ?ms]" and nc: "\<not> render_crashes (render_pins ?ms)"
    using live by (auto simp add: sys_inv_def split: view.splits)
  have nc': "\<not> render_crashes (render_pins (?ms @ [temp_marker now (event_latlng ev)]))"
    using nc placeholder_popup_renders by (simp add: render_pins_snoc render_crashes_snoc)
  have "commit (Live [0..<length ?ms]) (?ms @ [temp_marker now (event_latlng ev)])
      = (Live [0..<Suc (length ?ms)], [OpenPopup (length ?ms)])"
    using commit_live [of "length ?ms" "?ms @ [temp_marker now (event_latlng ev)]"] nc' by simp
  then show ?thesis
    using v by (simp add: sys_commit_def click_handle_def)
qed

theorem click_opens_its_popup_witness:
  "\<exists>\<sigma>'. sys_step sys_init (Click \<lparr>event_latlng = \<lparr>lat = 1, lng = 2\<rparr>\<rparr> 5) = Some \<sigma>'
     \<and> view \<sigma>' \<noteq> Crashed
     \<and> markers (app \<sigma>') = markers (app sys_init) @ [temp_marker 5 \<lparr>lat = 1, lng = 2\<rparr>]
     \<and> opened \<sigma>' = opened sys_init @ [OpenPopup (length (markers (app sys_init)))]"
proof -
  have r: "sys_reachable sys_init" by (rule sys_reachable.init)
  have "view sys_init \<noteq> Crashed" by (simp add: sys_init_eq)
  from click_opens_its_popup [OF r this, of "\<lparr>event_latlng = \<lparr>lat = 1, lng = 2\<rparr>\<rparr>" 5]
  show ?thesis by simp
qed

text \<open>
  C20 (labels do not reopen popups). A step that settles a request, which may
  change a label and so re-render every pin, opens no popup.
\<close>

theorem settle_opens_no_popup:
  assumes r: "sys_reachable \<sigma>" and st: "sys_step \<sigma> e = Some \<sigma>'"
    and e: "settled_task e \<noteq> None"
  shows "opened \<sigma>' = opened \<sigma>"
proof -
  obtain s' where live: "view \<sigma> \<noteq> Crashed" and a: "app_step (app \<sigma>) e = Some s'"
    and \<sigma>': "\<sigma>' = sys_commit (\<sigma>\<lparr>app := s'\<rparr>)"
    using st by (auto split: if_splits)
  have "sys_inv \<sigma>" using r by (rule sys_reachable_inv)
  then have v: "view \<sigma> = Live [0..<length (markers (app \<sigma>))]"
    using live by (auto simp add: sys_inv_def split: view.splits)
  have len: "length (markers s') = length (markers (app \<sigma>))"
    using a e by (rule app_step_settle_length)
  show ?thesis
    using commit_live [of "length (markers (app \<sigma>))" "markers s'"] len v
    by (simp add: \<sigma>' sys_commit_def)
qed

theorem settle_opens_no_popup_witness:
  "sys_step (the (sys_step sys_init (Click \<lparr>event_latlng = \<lparr>lat = 1, lng = 2\<rparr>\<rparr> 5)))
      (Fetch_settles 0 (FetchRejected TypeError)) \<noteq> None
   \<and> opened (the (sys_step (the (sys_step sys_init (Click \<lparr>event_latlng = \<lparr>lat = 1, lng = 2\<rparr>\<rparr> 5)))
        (Fetch_settles 0 (FetchRejected TypeError))))
     = opened (the (sys_step sys_init (Click \<lparr>event_latlng = \<lparr>lat = 1, lng = 2\<rparr>\<rparr> 5)))"
proof -
  let ?c = "Click \<lparr>event_latlng = \<lparr>lat = 1, lng = 2\<rparr>\<rparr> 5"
  let ?f = "Fetch_settles 0 (FetchRejected TypeError)"
  have "sys_step sys_init ?c \<noteq> None" by code_simp
  then obtain \<sigma>1 where st1: "sys_step sys_init ?c = Some \<sigma>1" by auto
  have r: "sys_reachable \<sigma>1" by (rule sys_reachable.step [OF sys_reachable.init st1])
  have "sys_step (the (sys_step sys_init ?c)) ?f \<noteq> None" by code_simp
  with st1 obtain \<sigma>' where st: "sys_step \<sigma>1 ?f = Some \<sigma>'" by auto
  have "opened \<sigma>' = opened \<sigma>1"
    by (rule settle_opens_no_popup [OF r st]) simp
  with st st1 show ?thesis by simp
qed

lemma app_sys_commit [simp]: "app (sys_commit \<sigma>) = app \<sigma>"
  by (simp add: sys_commit_def split: prod.splits)

lemma sys_reachable_app: "sys_reachable \<sigma> \<Longrightarrow> reachable (app \<sigma>)"
proof (induction rule: sys_reachable.induct)
  case init
  then show ?case by (simp add: sys_init_eq reachable.init)
next
  case (step \<sigma> e \<sigma>')
  then show ?case by (auto split: if_splits intro: reachable.step)
qed

lemma sys_run_reachable:
  "sys_run \<sigma> es = Some \<sigma>' \<Longrightarrow> sys_reachable \<sigma> \<Longrightarrow> sys_reachable \<sigma>'"
proof (induction es arbitrary: \<sigma>)
  case Nil
  then show ?case by simp
next
  case (Cons e es)
  then show ?case by (auto split: option.splits simp del: sys_step.simps intro: sys_reachable.step)
qed

lemma render_crashes_iff:
  "render_crashes (render_pins ms) \<longleftrightarrow> (\<exists>m \<in> set ms. \<exists>e. popup_content m = Some (Inl e))"
proof (induction ms rule: rev_induct)
  case Nil
  then show ?case by (simp add: render_pins_def render_crashes_def)
next
  case (snoc m ms)
  then show ?case by (auto simp add: render_pins_snoc render_crashes_snoc)
qed

lemma object_label_popup:
  assumes "\<bar>marker_lat m\<bar> < 10 ^ 21" and "\<bar>marker_lng m\<bar> < 10 ^ 21" and "marker_text m = Obj kvs"
  shows "popup_content m = Some (Inl ObjectsNotValidAsChild)"
proof -
  obtain a b where "to_fixed 4 (marker_lat m) = Some a" "to_fixed 4 (marker_lng m) = Some b"
    using to_fixed_error_bound [of 4, OF _ assms(1)] to_fixed_error_bound [of 4, OF _ assms(2)] by auto
  then show ?thesis using assms(3) by (simp add: popup_content_def coord_text_def)
qed

text \<open>
  C21 (a malformed answer crashes the application). In every reachable state of the
  live application whose markers have finite coordinates, if the body of a pending
  request has an object as \<open>display_name\<close>, settling it relabels the request's marker
  with that object; rendering it raises ``Objects are not valid as a React child''
  and, with no error boundary, the whole tree unmounts, after which no event is
  handled. The specification requires a malformed response to show the failure text
  and never to halt the session.
\<close>

theorem object_address_crashes_app:
  assumes r: "sys_reachable \<sigma>" and live: "view \<sigma> \<noteq> Crashed"
    and i: "i < length (tasks (app \<sigma>))" and t: "tasks (app \<sigma>) ! i = AwaitJson tid"
    and dn: "display_name_of v = Inr (Obj kvs)"
    and fin: "\<forall>m \<in> set (markers (app \<sigma>)). \<bar>marker_lat m\<bar> < 10 ^ 21 \<and> \<bar>marker_lng m\<bar> < 10 ^ 21"
  shows "\<exists>\<sigma>'. sys_step \<sigma> (Json_settles i (JsonResolved v)) = Some \<sigma>' \<and> view \<sigma>' = Crashed
    \<and> (\<forall>e. sys_step \<sigma>' e = None)"
proof -
  define s' where "s' = json_settled i tid (JsonResolved v) (app \<sigma>)"
  have st: "app_step (app \<sigma>) (Json_settles i (JsonResolved v)) = Some s'"
    using i t by (simp add: s'_def)
  have ms: "markers s' = set_text tid (Obj kvs) (markers (app \<sigma>))"
    using dn by (simp add: s'_def json_settled_def address_label_def)
  have "tid \<in> set (pending_ids (app \<sigma>))"
    using i t by (force simp add: pending_ids_def in_set_conv_nth)
  then have "Some tid \<in> marker_id ` set (markers (app \<sigma>))"
    using reachable_tasks_have_markers [OF sys_reachable_app [OF r]]
    by (simp add: tasks_have_markers_def)
  then obtain j where j: "j < length (markers (app \<sigma>))" "marker_id (markers (app \<sigma>) ! j) = Some tid"
    by (auto simp add: in_set_conv_nth)
  define m where "m = markers s' ! j"
  have "m \<in> set (markers s')" using j by (simp add: m_def ms)
  moreover have "popup_content m = Some (Inl ObjectsNotValidAsChild)"
    using j fin nth_mem [OF j(1)] by (intro object_label_popup) (simp_all add: m_def ms set_text_nth)
  ultimately have "render_crashes (render_pins (markers s'))"
    by (auto simp add: render_crashes_iff)
  then have "view (sys_commit (\<sigma>\<lparr>app := s'\<rparr>)) = Crashed"
    using live by (auto simp add: sys_commit_def commit_def Let_def split: view.splits)
  then show ?thesis using st live by simp
qed

theorem object_address_crashes_app_witness:
  "\<exists>\<sigma>. sys_run sys_init [Click \<lparr>event_latlng = \<lparr>lat = 0, lng = 0\<rparr>\<rparr> 1700000000000,
                           Fetch_settles 0 (FetchResolved 200)] = Some \<sigma>
     \<and> sys_reachable \<sigma> \<and> view \<sigma> \<noteq> Crashed
     \<and> 0 < length (tasks (app \<sigma>)) \<and> tasks (app \<sigma>) ! 0 = AwaitJson 1700000000000
     \<and> (\<exists>\<sigma>'. sys_step \<sigma> (Json_settles 0 (JsonResolved (Obj [(''display_name'', Obj [(''road'', Str ''x'')])])))
            = Some \<sigma>' \<and> view \<sigma>' = Crashed \<and> (\<forall>e. sys_step \<sigma>' e = None))"
proof -
  define es where "es = [Click \<lparr>event_latlng = \<lparr>lat = 0, lng = 0\<rparr>\<rparr> 1700000000000,
                         Fetch_settles 0 (FetchResolved 200)]"
  have "map_option (\<lambda>\<sigma>. (view \<sigma>, tasks (app \<sigma>),
            \<forall>m \<in> set (markers (app \<sigma>)). \<bar>marker_lat m\<bar> < 10 ^ 21 \<and> \<bar>marker_lng m\<bar> < 10 ^ 21))
          (sys_run sys_init es)
        = Some (Live [0, 1], [AwaitJson 1700000000000], True)"
    unfolding es_def by code_simp
  then obtain \<sigma> where run: "sys_run sys_init es = Some \<sigma>" and v: "view \<sigma> = Live [0, 1]"
    and t: "tasks (app \<sigma>) = [AwaitJson 1700000000000]"
    and f: "\<forall>m \<in> set (markers (app \<sigma>)). \<bar>marker_lat m\<bar> < 10 ^ 21 \<and> \<bar>marker_lng m\<bar> < 10 ^ 21"
    by auto
  have r: "sys_reachable \<sigma>" using sys_run_reachable [OF run sys_reachable.init] .
  have dn: "display_name_of (Obj [(''display_name'', Obj [(''road'', Str ''x'')])]) = Inr (Obj [(''road'', Str ''x'')])"
    by simp
  show ?thesis
    using object_address_crashes_app [OF r _ _ _ dn f, of 0 1700000000000] run v t r
    by (simp add: es_def)
qed

lemma map_centre_is_initial_marker:
  "map_center app_map_config = (marker_lat (hd initial_markers), marker_lng (hd initial_markers))"
  by (simp add: app_map_config_def initial_position_def initial_markers_def)

end
