(* ===== verification/Spec_Model.thy ===== *)
theory Spec_Model
  imports Marker_Controller
begin

text \<open>
  The contract of the marker controller as the specification states it (sections 3,
  4.2 and 9 of \<^verbatim>\<open>spec.md\<close>): every marker has a label state, \<open>Pending\<close> until its
  request settles and then \<open>Resolved\<close> with the address or \<open>Failed\<close>; a click
  appends a pending marker under a fresh id; a settlement updates, by id, the
  pending marker of that id and nothing else. \<open>spec_step\<close> is this abstract
  machine; \<open>concrete_marker\<close> shows an abstract marker as the code stores it, and
  \<open>refines\<close> relates a state of the code to an abstract one. The refinement theorem
  says each step of the code, on a click with a fresh id or on a settlement, is a
  step of the abstract machine or leaves the abstract state unchanged.
\<close>

datatype label_state = Pending | Resolved js_val | Failed

datatype outcome = OResolved js_val | OFailed

record spec_marker =
  sm_id :: "timestamp option"
  sm_lat :: js_number
  sm_lng :: js_number
  sm_label :: label_state

datatype spec_event = SClick timestamp latlng | SSettle timestamp outcome

fun terminal :: "outcome \<Rightarrow> label_state" where
  "terminal (OResolved v) = Resolved v"
| "terminal OFailed = Failed"

definition spec_settle :: "timestamp \<Rightarrow> outcome \<Rightarrow> spec_marker list \<Rightarrow> spec_marker list" where
  "spec_settle t oc =
     map_where (\<lambda>m. sm_id m = Some t \<and> sm_label m = Pending) (\<lambda>m. m\<lparr>sm_label := terminal oc\<rparr>)"

fun spec_step :: "spec_marker list \<Rightarrow> spec_event \<Rightarrow> spec_marker list" where
  "spec_step a (SClick t ll) =
     a @ [\<lparr>sm_id = Some t, sm_lat = lat ll, sm_lng = lng ll, sm_label = Pending\<rparr>]"
| "spec_step a (SSettle t oc) = spec_settle t oc a"

definition spec_init :: "spec_marker list" where
  "spec_init = [\<lparr>sm_id = None, sm_lat = initial_lat, sm_lng = initial_lng,
                  sm_label = Resolved (Str initial_text)\<rparr>]"

fun label_text :: "label_state \<Rightarrow> js_val" where
  "label_text Pending = Str placeholder_text"
| "label_text (Resolved v) = v"
| "label_text Failed = Str failure_text"

definition concrete_marker :: "spec_marker \<Rightarrow> marker" where
  "concrete_marker m =
     \<lparr>marker_id = sm_id m, marker_lat = sm_lat m, marker_lng = sm_lng m,
      marker_text = label_text (sm_label m)\<rparr>"

definition spec_pending :: "spec_marker list \<Rightarrow> timestamp set" where
  "spec_pending a = {t. \<exists>m \<in> set a. sm_id m = Some t \<and> sm_label m = Pending}"

text \<open>What the \<open>try\<close>/\<open>catch\<close> of \<open>addNewMarker\<close> decides once the body settled.\<close>

definition json_outcome_of :: "json_outcome \<Rightarrow> outcome" where
  "json_outcome_of r =
     (case r of
        JsonRejected e \<Rightarrow> OFailed
      | JsonResolved data \<Rightarrow>
          (case display_name_of data of Inl e \<Rightarrow> OFailed | Inr address \<Rightarrow> OResolved address))"

text \<open>The abstract event a step of the code performs; \<open>None\<close>: an internal step.\<close>

fun abs_event :: "app_state \<Rightarrow> event \<Rightarrow> spec_event option" where
  "abs_event s (Click ev now) = Some (SClick now (event_latlng ev))"
| "abs_event s (Fetch_settles i (FetchRejected e)) = Some (SSettle (task_id (tasks s ! i)) OFailed)"
| "abs_event s (Fetch_settles i (FetchResolved st)) = None"
| "abs_event s (Json_settles i r) = Some (SSettle (task_id (tasks s ! i)) (json_outcome_of r))"

definition refines :: "app_state \<Rightarrow> spec_marker list \<Rightarrow> bool" where
  "refines s a \<longleftrightarrow> markers s = map concrete_marker a
     \<and> set (pending_ids s) = spec_pending a \<and> ctrl_inv s"

fun abs_trace :: "app_state \<Rightarrow> event list \<Rightarrow> spec_event list" where
  "abs_trace s [] = []"
| "abs_trace s (e # es) =
     (case app_step s e of
        None \<Rightarrow> []
      | Some s' \<Rightarrow> (case abs_event s e of None \<Rightarrow> [] | Some ae \<Rightarrow> [ae]) @ abs_trace s' es)"

fun fresh_run :: "app_state \<Rightarrow> event list \<Rightarrow> bool" where
  "fresh_run s [] = True"
| "fresh_run s (e # es) =
     (fresh_event s e \<and> (case app_step s e of None \<Rightarrow> True | Some s' \<Rightarrow> fresh_run s' es))"

lemma address_label_outcome: "address_label r = label_text (terminal (json_outcome_of r))"
  by (simp add: address_label_def json_outcome_of_def split: json_outcome.splits sum.splits)

lemma concrete_marker_id [simp]: "marker_id (concrete_marker m) = sm_id m"
  by (simp add: concrete_marker_def)

lemma map_spec_settle:
  "\<forall>m \<in> set a. sm_id m = Some t \<longrightarrow> sm_label m = Pending \<Longrightarrow>
     map concrete_marker (spec_settle t oc a) = set_text t (label_text (terminal oc)) (map concrete_marker a)"
  by (induction a) (auto simp add: spec_settle_def set_text_def concrete_marker_def)

lemma ids_unique_concrete:
  "ids_unique (map concrete_marker a) \<longleftrightarrow> distinct (filter (\<lambda>x. x \<noteq> None) (map sm_id a))"
  by (simp add: ids_unique_def comp_def)

lemma pending_id_is_pending:
  assumes r: "refines s a" and t: "t \<in> set (pending_ids s)"
  shows "\<forall>m \<in> set a. sm_id m = Some t \<longrightarrow> sm_label m = Pending"
proof (intro ballI impI)
  fix m assume m: "m \<in> set a" and mid: "sm_id m = Some t"
  from r t obtain m' where m': "m' \<in> set a" "sm_id m' = Some t" "sm_label m' = Pending"
    by (auto simp add: refines_def spec_pending_def)
  have "ids_unique (map concrete_marker a)"
    using r unfolding refines_def ctrl_inv_def by metis
  then have "distinct (filter (\<lambda>x. x \<noteq> None) (map sm_id a))"
    by (simp only: ids_unique_concrete)
  then have "m = m'" using distinct_some_key_eq m m' mid by fastforce
  with m' show "sm_label m = Pending" by simp
qed

lemma spec_pending_settle: "spec_pending (spec_settle t oc a) = spec_pending a - {t}"
proof -
  have "terminal oc \<noteq> Pending" by (cases oc) auto
  then show ?thesis
    by (auto simp add: spec_pending_def spec_settle_def set_map_where)
qed

lemma spec_pending_click:
  "spec_pending (a @ [\<lparr>sm_id = Some t, sm_lat = x, sm_lng = y, sm_label = Pending\<rparr>]) = insert t (spec_pending a)"
  by (auto simp add: spec_pending_def)

lemma refines_init: "refines init_state spec_init"
  using ctrl_inv_init
  by (simp add: refines_def init_state_def initial_markers_def spec_init_def concrete_marker_def
      pending_ids_def spec_pending_def)

lemma refines_settle:
  assumes r: "refines s a" and i: "i < length (tasks s)" and tid: "task_id (tasks s ! i) = tid"
    and inv': "ctrl_inv (s\<lparr>markers := set_text tid (label_text (terminal oc)) (markers s),
                  tasks := remove_nth i (tasks s)\<rparr>)"
  shows "refines (s\<lparr>markers := set_text tid (label_text (terminal oc)) (markers s),
                  tasks := remove_nth i (tasks s)\<rparr>) (spec_settle tid oc a)"
proof -
  have tin: "tid \<in> set (pending_ids s)" using i tid by (auto simp add: pending_ids_def)
  have d: "distinct (pending_ids s)" using r by (simp add: refines_def ctrl_inv_def)
  have "set (remove_nth i (pending_ids s)) = set (pending_ids s) - {tid}"
    using in_set_remove_nth [OF d] i tid by (auto simp add: pending_ids_nth)
  moreover have "map concrete_marker (spec_settle tid oc a)
      = set_text tid (label_text (terminal oc)) (markers s)"
    using map_spec_settle [OF pending_id_is_pending [OF r tin]] r by (simp add: refines_def)
  ultimately show ?thesis
    using r inv' by (simp add: refines_def spec_pending_settle)
qed

lemma app_step_refines:
  assumes r: "refines s a" and f: "fresh_event s e" and st: "app_step s e = Some s'"
  shows "refines s' (case abs_event s e of None \<Rightarrow> a | Some ae \<Rightarrow> spec_step a ae)"
proof -
  have "ctrl_inv s" using r by (simp add: refines_def)
  then have inv': "ctrl_inv s'" using f st by (rule ctrl_inv_step)
  from st show ?thesis
  proof (cases rule: app_step_SomeE)
    case (click ev now)
    then show ?thesis using r inv'
      by (simp add: refines_def concrete_marker_def temp_marker_def spec_pending_click)
  next
    case (fetch i tid ll res)
    show ?thesis
    proof (cases res)
      case (FetchRejected err)
      then show ?thesis
        using fetch inv' refines_settle [OF r \<open>i < length (tasks s)\<close>, of tid OFailed]
        by (simp add: fetch_settled_def)
    next
      case (FetchResolved status)
      then show ?thesis
        using fetch r inv' by (simp add: fetch_settled_def refines_def)
    qed
  next
    case (json i tid res)
    then show ?thesis
      using inv' refines_settle [OF r \<open>i < length (tasks s)\<close>, of tid "json_outcome_of res"]
      by (simp add: json_settled_def address_label_outcome)
  qed
qed

lemma app_run_refines:
  "refines s a \<Longrightarrow> app_run s es = Some s' \<Longrightarrow> fresh_run s es \<Longrightarrow>
     refines s' (foldl spec_step a (abs_trace s es))"
proof (induction es arbitrary: s a)
  case Nil
  then show ?case by simp
next
  case (Cons e es)
  then obtain s1 where st: "app_step s e = Some s1" and run: "app_run s1 es = Some s'"
    by (auto split: option.splits)
  have f: "fresh_event s e" and fr: "fresh_run s1 es" using Cons.prems(3) st by simp_all
  have r1: "refines s1 (case abs_event s e of None \<Rightarrow> a | Some ae \<Rightarrow> spec_step a ae)"
    by (rule app_step_refines [OF Cons.prems(1) f st])
  show ?case
    using Cons.IH [OF r1 run fr] st by (simp split: option.splits)
qed

text \<open>
  C22 (refinement). Along every run from the start in which each click gets an id no
  marker carries, the markers the code holds are, one for one, the markers of the
  specification's machine run on the abstract events of that run, shown with the
  placeholder while pending, the address once resolved and the failure text once
  failed; the pending requests are exactly the pending abstract markers.
\<close>

theorem code_refines_spec:
  assumes run: "app_run init_state es = Some s" and fresh: "fresh_run init_state es"
  shows "markers s = map concrete_marker (foldl spec_step spec_init (abs_trace init_state es))
     \<and> set (pending_ids s) = spec_pending (foldl spec_step spec_init (abs_trace init_state es))"
  using app_run_refines [OF refines_init run fresh] by (simp add: refines_def)

theorem code_refines_spec_witness:
  "app_run init_state [Click \<lparr>event_latlng = \<lparr>lat = 1, lng = 2\<rparr>\<rparr> 5, Fetch_settles 0 (FetchRejected TypeError)]
     = Some (fetch_settled 0 5 (FetchRejected TypeError) (add_new_marker 5 \<lparr>lat = 1, lng = 2\<rparr> init_state))
   \<and> fresh_run init_state [Click \<lparr>event_latlng = \<lparr>lat = 1, lng = 2\<rparr>\<rparr> 5, Fetch_settles 0 (FetchRejected TypeError)]
   \<and> markers (fetch_settled 0 5 (FetchRejected TypeError) (add_new_marker 5 \<lparr>lat = 1, lng = 2\<rparr> init_state))
     = map concrete_marker (spec_init @ [\<lparr>sm_id = Some 5, sm_lat = 1, sm_lng = 2, sm_label = Failed\<rparr>])"
proof -
  let ?es = "[Click \<lparr>event_latlng = \<lparr>lat = 1, lng = 2\<rparr>\<rparr> 5, Fetch_settles 0 (FetchRejected TypeError)]"
  let ?s = "fetch_settled 0 5 (FetchRejected TypeError) (add_new_marker 5 \<lparr>lat = 1, lng = 2\<rparr> init_state)"
  have run: "app_run init_state ?es = Some ?s" by (simp add: click_handle_def model_simps)
  have fresh: "fresh_run init_state ?es"
    by (simp add: fresh_event_def click_handle_def model_simps)
  have tr: "foldl spec_step spec_init (abs_trace init_state ?es)
      = spec_init @ [\<lparr>sm_id = Some 5, sm_lat = 1, sm_lng = 2, sm_label = Failed\<rparr>]"
    by (simp add: click_handle_def model_simps spec_settle_def spec_init_def)
  show ?thesis using code_refines_spec [OF run fresh] run fresh tr by simp
qed

end
