(* ===== verification/Double_Rounding.thy ===== *)
theory Double_Rounding
  imports Prelude
begin

text \<open>
  IEEE 754 binary64 rounding, the \<open>\<bbbF>(r)\<close> of ECMA-262 (section 6.1.6.1): the
  double nearest to a rational \<open>r\<close>, the one with the even significand on a tie,
  and \<open>None\<close> (an infinity) when the magnitude reaches \<open>2^1024\<close>. A positive double
  is \<open>m * 2^q\<close> with \<open>m < 2^53\<close> and \<open>-1074 \<le> q\<close>; for \<open>r\<close> in the binade
  \<open>[2^e, 2^(e+1))\<close> the spacing is \<open>2^q\<close> with \<open>q = max (e - 52) (-1074)\<close>.
  \<open>is_double x\<close> says that the rational \<open>x\<close> is the value of a finite double, which
  is what every \<open>js_number\<close> of the model is.
\<close>

function int_log :: "int \<Rightarrow> int \<Rightarrow> int" where
  "int_log b n = (if b \<le> 1 \<or> n < b then 0 else 1 + int_log b (n div b))"
  by pat_completeness auto
termination
  by (relation "measure (\<lambda>(b, n). nat n)") (auto intro: int_div_less_self)

definition flog :: "int \<Rightarrow> rat \<Rightarrow> int" where
  "flog b r = (if 1 \<le> r then int_log b \<lfloor>r\<rfloor> else - int_log b (\<lceil>1 / r\<rceil> - 1) - 1)"

definition round_half_even :: "rat \<Rightarrow> int" where
  "round_half_even r =
     (let f = \<lfloor>r\<rfloor>; d = r - of_int f in
      if d < 1 / 2 then f else if 1 / 2 < d then f + 1 else if even f then f else f + 1)"

definition double_limit :: rat where
  "double_limit = 2 ^ 1024"

definition round_double_pos :: "rat \<Rightarrow> rat option" where
  "round_double_pos r =
     (let q = max (flog 2 r - 52) (-1074);
          v = of_int (round_half_even (r / 2 powi q)) * 2 powi q
      in if double_limit \<le> v then None else Some v)"

definition round_double :: "rat \<Rightarrow> rat option" where
  "round_double r =
     (if r = 0 then Some 0
      else if 0 < r then round_double_pos r
      else map_option uminus (round_double_pos (- r)))"

definition is_double :: "rat \<Rightarrow> bool" where
  "is_double x \<longleftrightarrow> round_double x = Some x"

declare int_log.simps [simp del]

lemma double_limit_code [code]:
  "double_limit = 179769313486231590772930519078902473361797697894230657273430081157732675805500963132708477322407536021120113879871393357658789768814416622492847430639474124377767893424865485276302219601246094119453082952085005768838150682342462881473913110540827237163350510684586298239947245938479716304835356329624224137216"
  by (simp add: double_limit_def)

subsection \<open>Integer logarithm\<close>

lemma int_log_bounds:
  assumes "1 < b" and "1 \<le> n"
  shows "0 \<le> int_log b n \<and> b ^ nat (int_log b n) \<le> n \<and> n < b ^ nat (int_log b n + 1)"
  using assms
proof (induction b n rule: int_log.induct)
  case (1 b n)
  show ?case
  proof (cases "n < b")
    case True
    then show ?thesis using "1.prems" by (simp add: int_log.simps [of b n])
  next
    case False
    then have n: "b \<le> n" by simp
    then have "b div b \<le> n div b" using "1.prems" by (intro zdiv_mono1) auto
    then have "1 \<le> n div b" using "1.prems" by simp
    then have IH: "0 \<le> int_log b (n div b) \<and> b ^ nat (int_log b (n div b)) \<le> n div b
        \<and> n div b < b ^ nat (int_log b (n div b) + 1)"
      using "1.IH" "1.prems" False by simp
    define e where "e = int_log b (n div b)"
    have dm: "b * (n div b) + n mod b = n" by (rule mult_div_mod_eq)
    have m: "0 \<le> n mod b" "n mod b < b" using "1.prems" by simp_all
    have l: "int_log b n = 1 + e"
      using False "1.prems" by (simp add: int_log.simps [of b n] e_def)
    have p1: "b ^ nat (1 + e) = b * b ^ nat e" and p2: "b ^ nat (1 + e + 1) = b * b ^ nat (e + 1)"
      using IH by (simp_all add: e_def nat_add_distrib)
    have "b * b ^ nat e \<le> b * (n div b)" using IH "1.prems" by (simp add: e_def)
    then have lo: "b ^ nat (1 + e) \<le> n" using p1 dm m by linarith
    have "n div b + 1 \<le> b ^ nat (e + 1)" using IH by (simp add: e_def)
    then have "b * (n div b) + b \<le> b * b ^ nat (e + 1)"
      using "1.prems" mult_left_mono [of "n div b + 1" "b ^ nat (e + 1)" b] by (simp add: distrib_left)
    then have hi: "n < b ^ nat (1 + e + 1)" using p2 dm m by linarith
    show ?thesis using l lo hi IH by (simp add: e_def)
  qed
qed

lemma of_int_power_int:
  "0 \<le> e \<Longrightarrow> (of_int b :: rat) powi e = of_int (b ^ nat e)"
  by (simp add: power_int_nonneg_exp)

lemma flog_bounds:
  assumes b: "1 < b" and r: "0 < r"
  shows "of_int b powi flog b r \<le> r \<and> r < of_int b powi (flog b r + 1)"
proof (cases "1 \<le> r")
  case True
  define e where "e = int_log b \<lfloor>r\<rfloor>"
  have "1 \<le> \<lfloor>r\<rfloor>" using True by simp
  then have "0 \<le> e \<and> b ^ nat e \<le> \<lfloor>r\<rfloor> \<and> \<lfloor>r\<rfloor> < b ^ nat (e + 1)"
    using int_log_bounds [OF b] unfolding e_def by blast
  then have B: "0 \<le> e" "b ^ nat e \<le> \<lfloor>r\<rfloor>" "\<lfloor>r\<rfloor> + 1 \<le> b ^ nat (e + 1)"
    by linarith+
  have f: "flog b r = e" using True by (simp add: flog_def e_def)
  have "of_int (b ^ nat e) \<le> r"
    using B(2) by (meson le_floor_iff)
  moreover have "r < of_int (\<lfloor>r\<rfloor> + 1)" using floor_correct [of r] by blast
  then have "r < of_int (b ^ nat (e + 1))"
    using B(3) by (metis less_le_trans of_int_le_iff)
  ultimately show ?thesis using B(1) by (simp add: f of_int_power_int)
next
  case False
  define c where "c = \<lceil>1 / r\<rceil>"
  define d where "d = int_log b (c - 1)"
  have "1 < 1 / r" using False r by simp
  then have c2: "2 \<le> c" unfolding c_def by (simp add: le_ceiling_iff)
  then have "0 \<le> d \<and> b ^ nat d \<le> c - 1 \<and> c - 1 < b ^ nat (d + 1)"
    using int_log_bounds [OF b, of "c - 1"] unfolding d_def by simp
  then have B: "0 \<le> d" "b ^ nat d \<le> c - 1" "c \<le> b ^ nat (d + 1)"
    by linarith+
  have f: "flog b r = - (d + 1)" using False by (simp add: flog_def c_def d_def)
  have cc: "of_int c - 1 < 1 / r" "1 / r \<le> of_int c"
    using ceiling_correct [of "1 / r"] unfolding c_def by simp_all
  have pd: "(of_int b :: rat) powi d = of_int (b ^ nat d)"
    and pd1: "(of_int b :: rat) powi (d + 1) = of_int (b ^ nat (d + 1))"
    using B(1) by (simp_all add: of_int_power_int)
  have "1 / r \<le> of_int (b ^ nat (d + 1))"
    using cc(2) B(3) by (metis of_int_le_iff order_trans)
  then have lo: "1 / of_int (b ^ nat (d + 1)) \<le> r"
    using r b by (simp add: divide_simps mult.commute)
  have "of_int (b ^ nat d) < 1 / r"
    using cc(1) B(2) by (metis of_int_diff of_int_le_iff of_int_1 le_less_trans)
  then have hi: "r < 1 / of_int (b ^ nat d)"
    using r b by (simp add: divide_simps mult.commute)
  have e1: "(of_int b :: rat) powi flog b r = 1 / of_int (b ^ nat (d + 1))"
    unfolding f power_int_minus_divide pd1 ..
  have "flog b r + 1 = - d" using f by simp
  then have e2: "(of_int b :: rat) powi (flog b r + 1) = 1 / of_int (b ^ nat d)"
    by (simp only: power_int_minus_divide pd)
  show ?thesis using lo hi by (simp only: e1 e2)
qed

subsection \<open>Rounding\<close>

lemma round_half_even_error: "\<bar>of_int (round_half_even y) - y\<bar> \<le> 1 / 2"
proof -
  have "of_int \<lfloor>y\<rfloor> \<le> y" "y < of_int \<lfloor>y\<rfloor> + 1" by linarith+
  then show ?thesis by (auto simp add: round_half_even_def Let_def)
qed

lemma round_double_pos_Some:
  "round_double_pos r = Some v \<Longrightarrow>
     v = of_int (round_half_even (r / 2 powi max (flog 2 r - 52) (-1074))) * 2 powi max (flog 2 r - 52) (-1074)"
  by (simp add: round_double_pos_def Let_def split: if_splits)

lemma round_double_uminus: "round_double (- r) = map_option uminus (round_double r)"
  by (simp add: round_double_def option.map_comp comp_def option.map_ident)

lemma is_double_uminus: "is_double x \<Longrightarrow> is_double (- x)"
  by (simp add: is_double_def round_double_uminus)

lemma is_double_zero [simp]: "is_double 0"
  by (simp add: is_double_def round_double_def)

lemma round_double_grid:
  assumes "round_double r = Some v"
  shows "\<exists>m q. v = of_int m * 2 powi q"
proof (cases "0 < r")
  case True
  then show ?thesis using assms round_double_pos_Some by (simp add: round_double_def) blast
next
  case False
  show ?thesis
  proof (cases "r = 0")
    case True
    then show ?thesis using assms by (simp add: round_double_def)
  next
    case False
    with \<open>\<not> 0 < r\<close> assms obtain w where "round_double_pos (- r) = Some w" "v = - w"
      by (auto simp add: round_double_def)
    then show ?thesis using round_double_pos_Some by (metis mult_minus_left of_int_minus)
  qed
qed

lemma round_double_pos_error:
  assumes r: "0 < r" and v: "round_double_pos r = Some v"
  shows "\<bar>v - r\<bar> \<le> r / 2 ^ 53 \<or> \<bar>v - r\<bar> \<le> 1 / 2 ^ 1075"
proof -
  define q where "q = max (flog 2 r - 52) (-1074)"
  define m where "m = round_half_even (r / 2 powi q)"
  have pq: "(0::rat) < 2 powi q" by simp
  have "v = of_int m * 2 powi q" using round_double_pos_Some [OF v] by (simp add: q_def m_def)
  then have "v - r = (of_int m - r / 2 powi q) * 2 powi q" using pq by (simp add: algebra_simps)
  then have "\<bar>v - r\<bar> = \<bar>of_int m - r / 2 powi q\<bar> * 2 powi q" by (simp add: abs_mult)
  also have "\<dots> \<le> 1 / 2 * 2 powi q"
    using round_half_even_error [of "r / 2 powi q"] pq unfolding m_def by (intro mult_right_mono) auto
  finally have err: "\<bar>v - r\<bar> \<le> 2 powi q / 2" by simp
  show ?thesis
  proof (cases "flog 2 r - 52 \<le> -1074")
    case True
    then have "q = -1074" by (simp add: q_def)
    then show ?thesis using err by (simp add: power_int_minus_divide)
  next
    case False
    then have qf: "q = flog 2 r + (-52)" by (simp add: q_def)
    have "(2::rat) powi flog 2 r \<le> r" using flog_bounds [of 2 r] r by simp
    moreover have "(2::rat) powi q = 2 powi flog 2 r * 2 powi (-52)"
      unfolding qf by (rule power_int_add) simp
    ultimately have "(2::rat) powi q \<le> r * 2 powi (-52)"
      by (simp add: mult_right_mono)
    then show ?thesis using err by (simp add: power_int_minus_divide)
  qed
qed

end
