(* ===== verification/Number_To_String.thy ===== *)
theory Number_To_String
  imports Double_Rounding To_Fixed
begin

text \<open>
  \<open>Number::toString(x)\<close> of ECMA-262 (section 6.1.6.1.20), which the template
  literal of \<^verbatim>\<open>src/src/App.jsx\<close> line 59 applies to \<open>latlng.lat\<close> and
  \<open>latlng.lng\<close>. Its step 5 chooses integers \<open>k \<ge> 1\<close>, \<open>n\<close> and
  \<open>10^(k-1) \<le> s < 10^k\<close> such that \<open>\<bbbF>(s * 10^(n-k))\<close> is \<open>x\<close>, with \<open>k\<close> as small as
  possible and, among several \<open>s\<close>, the one closest to \<open>x\<close>, the even one on a tie
  (the refinement the standard recommends and engines implement). For a given
  \<open>k\<close> the candidates are the \<open>k\<close>-digit decimals just below and just above
  \<open>x\<close> (\<open>digit_candidates\<close>): any other \<open>k\<close>-digit decimal that rounds to \<open>x\<close>
  lies beyond one of them. The search over \<open>k = 1, 2, ...\<close> is a partial
  function; \<open>shortest_digits_terminates\<close> shows it ends on every positive double. Steps 6 to 12
  print \<open>s\<close> as an integer, a decimal fraction or in exponent notation
  (\<open>format_digits\<close>). \<open>read_number\<close> is the value of such a numeral.
\<close>

definition digit_candidates :: "rat \<Rightarrow> int \<Rightarrow> (int \<times> int) list" where
  "digit_candidates x k =
     (let n = flog 10 x + 1; t = x * 10 powi (k - n); lo = \<lfloor>t\<rfloor>; hi = \<lceil>t\<rceil> in
      remdups [(lo, n),
               (if of_int hi = (10::rat) powi k then (\<lfloor>(10::rat) powi (k - 1)\<rfloor>, n + 1)
                else (hi, n))])"

definition closer :: "rat \<Rightarrow> int \<Rightarrow> int \<times> int \<Rightarrow> int \<times> int \<Rightarrow> int \<times> int" where
  "closer x k c1 c2 =
     (let d1 = \<bar>of_int (fst c1) * 10 powi (snd c1 - k) - x\<bar>;
          d2 = \<bar>of_int (fst c2) * 10 powi (snd c2 - k) - x\<bar>
      in if d1 < d2 then c1 else if d2 < d1 then c2 else if even (fst c1) then c1 else c2)"

definition shortest_at :: "rat \<Rightarrow> int \<Rightarrow> (int \<times> int) option" where
  "shortest_at x k =
     (case filter (\<lambda>(s, n). round_double (of_int s * 10 powi (n - k)) = Some x)
             (digit_candidates x k) of
        [] \<Rightarrow> None
      | [c] \<Rightarrow> Some c
      | c1 # c2 # _ \<Rightarrow> Some (closer x k c1 c2))"

partial_function (option) shortest_digits :: "rat \<Rightarrow> int \<Rightarrow> (int \<times> int \<times> int) option" where
  "shortest_digits x k =
     (if shortest_at x k = None then shortest_digits x (k + 1)
      else map_option (\<lambda>(s, n). (k, n, s)) (shortest_at x k))"

definition exponent_suffix :: "int \<Rightarrow> js_string" where
  "exponent_suffix e = ''e'' @ (if e < 0 then ''-'' else ''+'') @ int_digits \<bar>e\<bar>"

definition format_digits :: "int \<Rightarrow> int \<Rightarrow> int \<Rightarrow> js_string" where
  "format_digits k n s =
     (let ds = int_digits s in
      if k \<le> n \<and> n \<le> 21 then ds @ replicate (nat (n - k)) (CHR ''0'')
      else if 0 < n \<and> n \<le> 21 then take (nat n) ds @ ''.'' @ drop (nat n) ds
      else if -6 < n \<and> n \<le> 0 then ''0.'' @ replicate (nat (- n)) (CHR ''0'') @ ds
      else if k = 1 then ds @ exponent_suffix (n - 1)
      else take 1 ds @ ''.'' @ drop 1 ds @ exponent_suffix (n - 1))"

definition number_to_string :: "js_number \<Rightarrow> js_string option" where
  "number_to_string x =
     (if x = 0 then Some ''0''
      else map_option (\<lambda>(k, n, s). (if x < 0 then ''-'' else '''') @ format_digits k n s)
             (shortest_digits \<bar>x\<bar> 1))"

definition read_number :: "js_string \<Rightarrow> js_number" where
  "read_number t =
     (let m = takeWhile (\<lambda>c. c \<noteq> CHR ''e'') t;
          e = drop 1 (dropWhile (\<lambda>c. c \<noteq> CHR ''e'') t);
          ev = (if take 1 e = ''-'' then - digits_value (drop 1 e)
                else if take 1 e = ''+'' then digits_value (drop 1 e) else digits_value e)
      in read_fixed m * 10 powi ev)"

declare shortest_digits.simps [code]

subsection \<open>Digit strings\<close>

abbreviation decimal_digits :: "char set" where
  "decimal_digits \<equiv> set ''0123456789''"

lemma digit_char_mem: "0 \<le> d \<Longrightarrow> d < 10 \<Longrightarrow> digit_char d \<in> decimal_digits"
  unfolding digit_char_def by (intro nth_mem) simp

lemma int_digits_chars: "0 \<le> n \<Longrightarrow> set (int_digits n) \<subseteq> decimal_digits"
proof (induction n rule: int_digits.induct)
  case (1 n)
  then show ?case using digit_char_mem [of n] digit_char_mem [of "n mod 10"]
    by (cases "n < 10") (auto simp add: int_digits.simps [of n])
qed

lemma length_int_digits:
  "1 \<le> k \<Longrightarrow> 10 ^ nat (k - 1) \<le> s \<Longrightarrow> s < 10 ^ nat k \<Longrightarrow> length (int_digits s) = nat k"
proof (induction s arbitrary: k rule: int_digits.induct)
  case (1 s)
  show ?case
  proof (cases "s < 10")
    case True
    have "nat (k - 1) = 0"
    proof (rule ccontr)
      assume "nat (k - 1) \<noteq> 0"
      then have "(10::int) ^ 1 \<le> 10 ^ nat (k - 1)" by (intro power_increasing) auto
      then show False using "1.prems"(2) True by simp
    qed
    then show ?thesis using True "1.prems"(1) by (simp add: int_digits.simps [of s])
  next
    case False
    have k2: "2 \<le> k"
    proof (rule ccontr)
      assume "\<not> 2 \<le> k"
      then have "nat k = 1" using "1.prems"(1) by simp
      then show False using "1.prems"(3) False by simp
    qed
    have e: "nat (k - 1) = Suc (nat (k - 1 - 1))" "nat k = Suc (nat (k - 1))" using k2 by simp_all
    have p: "(10::int) ^ nat (k - 1) = 10 * 10 ^ nat (k - 1 - 1)" "(10::int) ^ nat k = 10 * 10 ^ nat (k - 1)"
      using e by simp_all
    have dm: "10 * (s div 10) + s mod 10 = s" and m: "0 \<le> s mod 10" "s mod 10 < 10"
      by simp_all
    have "10 * 10 ^ nat (k - 1 - 1) < 10 * (s div 10 + 1)"
      using "1.prems"(2) p(1) dm m by (simp add: distrib_left)
    then have "10 ^ nat (k - 1 - 1) \<le> s div 10" by simp
    moreover have "10 * (s div 10) < 10 * 10 ^ nat (k - 1)"
      using "1.prems"(3) p(2) dm m by linarith
    then have "s div 10 < 10 ^ nat (k - 1)" by simp
    ultimately have "length (int_digits (s div 10)) = nat (k - 1)"
      using "1.IH" False k2 by simp
    then show ?thesis using False e(2) by (simp add: int_digits.simps [of s])
  qed
qed

lemma digits_value_append:
  "digits_value (a @ b) = digits_value a * 10 ^ length b + digits_value b"
proof (induction b rule: rev_induct)
  case Nil
  then show ?case by (simp add: digits_value_def)
next
  case (snoc c b)
  have "digits_value (a @ b @ [c]) = 10 * digits_value (a @ b) + digit_value c"
    using digits_value_snoc [of "a @ b" c] by simp
  then show ?case using snoc by (simp add: digits_value_snoc algebra_simps)
qed

lemma digits_value_trailing_zeros:
  "digits_value (a @ replicate j (CHR ''0'')) = digits_value a * 10 ^ j"
proof -
  have "digits_value (replicate j (CHR ''0'')) = 0"
    using digits_value_zeros [of j "[]"] by (simp add: digits_value_def)
  then show ?thesis by (simp add: digits_value_append)
qed

lemma read_fixed_digits:
  "set a \<subseteq> decimal_digits \<Longrightarrow> read_fixed a = of_int (digits_value a)"
proof -
  assume a: "set a \<subseteq> decimal_digits"
  then have "take 1 a \<noteq> ''-''" by (cases a) auto
  moreover have tw: "takeWhile (\<lambda>c. c \<noteq> CHR ''.'') a = a"
    and dw: "dropWhile (\<lambda>c. c \<noteq> CHR ''.'') a = []"
    using a by (auto simp add: takeWhile_eq_all_conv dropWhile_eq_Nil_conv)
  ultimately have "read_fixed a =
      of_int (digits_value (takeWhile (\<lambda>c. c \<noteq> CHR ''.'') a
        @ drop 1 (dropWhile (\<lambda>c. c \<noteq> CHR ''.'') a)))
      / 10 ^ length (drop 1 (dropWhile (\<lambda>c. c \<noteq> CHR ''.'') a))"
    by (simp add: read_fixed_def)
  then show ?thesis by (simp only: tw dw) simp
qed

lemma read_fixed_point:
  "a \<noteq> [] \<Longrightarrow> set (a @ b) \<subseteq> decimal_digits \<Longrightarrow>
     read_fixed (a @ ''.'' @ b) = of_int (digits_value (a @ b)) / 10 ^ length b"
  using read_fixed_shape [of "''''" a b] by auto

lemma read_number_plain:
  assumes "CHR ''e'' \<notin> set m"
  shows "read_number m = read_fixed m"
proof -
  have tw: "takeWhile (\<lambda>c. c \<noteq> CHR ''e'') m = m" and dw: "dropWhile (\<lambda>c. c \<noteq> CHR ''e'') m = []"
    using assms by (auto simp add: takeWhile_eq_all_conv dropWhile_eq_Nil_conv)
  show ?thesis unfolding read_number_def Let_def tw dw by (simp add: digits_value_def)
qed

lemma exponent_suffix_value:
  assumes m: "CHR ''e'' \<notin> set m"
  shows "read_number (m @ exponent_suffix e) = read_fixed m * 10 powi e"
proof -
  have all: "\<forall>c \<in> set m. c \<noteq> CHR ''e''" using m by auto
  have v: "e < 0 \<Longrightarrow> digits_value (int_digits (- e)) = - e"
    "\<not> e < 0 \<Longrightarrow> digits_value (int_digits e) = e"
    using int_digits_props [of "- e"] int_digits_props [of e] by simp_all
  have "takeWhile (\<lambda>c. c \<noteq> CHR ''e'') (m @ exponent_suffix e) = m"
    and "dropWhile (\<lambda>c. c \<noteq> CHR ''e'') (m @ exponent_suffix e) = exponent_suffix e"
    using all by (simp_all add: takeWhile_append2 dropWhile_append2 exponent_suffix_def)
  then show ?thesis using v by (cases "e < 0") (simp_all add: read_number_def exponent_suffix_def)
qed

lemma read_number_minus:
  "take 1 t \<noteq> ''-'' \<Longrightarrow> read_number (CHR ''-'' # t) = - read_number t"
  by (cases t) (simp_all add: read_number_def read_fixed_def Let_def split: prod.splits)

lemma exponent_suffix_chars: "set (exponent_suffix e) \<subseteq> decimal_digits \<union> set ''e+-''"
  using int_digits_chars [of "\<bar>e\<bar>"] by (auto simp add: exponent_suffix_def)

lemma power_ten_diff:
  "(10::rat) powi (n - k) = 10 powi n / 10 powi k"
  by (rule power_int_diff) simp

lemma powi_ten_neg: "0 \<le> j \<Longrightarrow> (10::rat) powi (- j) = 1 / 10 ^ nat j"
  by (simp add: power_int_minus_divide power_int_nonneg_exp)

lemma format_digits_read:
  assumes k: "1 \<le> k" and lo: "10 ^ nat (k - 1) \<le> s" and hi: "s < 10 ^ nat k"
  shows "read_number (format_digits k n s) = of_int s * 10 powi (n - k)"
proof -
  define ds where "ds = int_digits s"
  have s0: "0 \<le> s" using lo by (smt (verit) zero_le_power)
  have len: "length ds = nat k" unfolding ds_def by (rule length_int_digits [OF k lo hi])
  have dch: "set ds \<subseteq> decimal_digits" unfolding ds_def by (rule int_digits_chars [OF s0])
  have dv: "digits_value ds = s" using int_digits_props [OF s0] by (simp add: ds_def)
  have ne: "CHR ''e'' \<notin> set ds" using dch by auto
  have dsne: "ds \<noteq> []" using k len by auto
  note fd = format_digits_def [of k n s, unfolded Let_def, folded ds_def]
  consider (A) "k \<le> n \<and> n \<le> 21" | (B) "\<not> (k \<le> n \<and> n \<le> 21)" "0 < n \<and> n \<le> 21"
    | (C) "\<not> (k \<le> n \<and> n \<le> 21)" "\<not> (0 < n \<and> n \<le> 21)" "-6 < n \<and> n \<le> 0"
    | (D) "\<not> (k \<le> n \<and> n \<le> 21)" "\<not> (0 < n \<and> n \<le> 21)" "\<not> (-6 < n \<and> n \<le> 0)" "k = 1"
    | (E) "\<not> (k \<le> n \<and> n \<le> 21)" "\<not> (0 < n \<and> n \<le> 21)" "\<not> (-6 < n \<and> n \<le> 0)" "k \<noteq> 1"
    by linarith
  then show ?thesis
  proof cases
    case A
    have f: "format_digits k n s = ds @ replicate (nat (n - k)) (CHR ''0'')"
      unfolding fd by (simp only: if_P [OF A])
    have "set (ds @ replicate (nat (n - k)) (CHR ''0'')) \<subseteq> decimal_digits" using dch by auto
    then have "read_number (ds @ replicate (nat (n - k)) (CHR ''0''))
        = of_int (digits_value ds * 10 ^ nat (n - k))"
      using ne by (simp add: read_number_plain read_fixed_digits digits_value_trailing_zeros)
    moreover have "(10::rat) powi (n - k) = 10 ^ nat (n - k)"
      using A by (simp add: power_int_nonneg_exp)
    ultimately show ?thesis by (simp add: f dv)
  next
    case B
    have f: "format_digits k n s = take (nat n) ds @ ''.'' @ drop (nat n) ds"
      unfolding fd by (simp only: if_not_P [OF B(1)] if_P [OF B(2)])
    have a: "take (nat n) ds \<noteq> []" using dsne B by simp
    have sd: "set (take (nat n) ds @ drop (nat n) ds) \<subseteq> decimal_digits" using dch by simp
    have "CHR ''e'' \<notin> set (take (nat n) ds @ ''.'' @ drop (nat n) ds)"
      using ne set_take_subset [of "nat n" ds] set_drop_subset [of "nat n" ds] by auto
    then have "read_number (take (nat n) ds @ ''.'' @ drop (nat n) ds)
        = read_fixed (take (nat n) ds @ ''.'' @ drop (nat n) ds)" by (rule read_number_plain)
    also have "\<dots> = of_int s / 10 ^ length (drop (nat n) ds)"
      using read_fixed_point [OF a sd] dv by simp
    also have "length (drop (nat n) ds) = nat (k - n)"
      using len B by (simp add: nat_diff_distrib)
    finally have r: "read_number (take (nat n) ds @ ''.'' @ drop (nat n) ds) = of_int s / 10 ^ nat (k - n)" .
    have "(10::rat) powi (n - k) = 1 / 10 ^ nat (k - n)"
      using powi_ten_neg [of "k - n"] B by simp
    then show ?thesis unfolding f r by simp
  next
    case C
    have f: "format_digits k n s = ''0'' @ ''.'' @ replicate (nat (- n)) (CHR ''0'') @ ds"
      unfolding fd by (simp only: if_not_P [OF C(1)] if_not_P [OF C(2)] if_P [OF C(3)]) simp
    have z: "digits_value (''0'' @ replicate (nat (- n)) (CHR ''0'') @ ds) = s"
      using digits_value_zeros [of "Suc (nat (- n))" ds] dv by simp
    have sd: "set (''0'' @ replicate (nat (- n)) (CHR ''0'') @ ds) \<subseteq> decimal_digits" using dch by auto
    have "CHR ''e'' \<notin> set (''0'' @ ''.'' @ replicate (nat (- n)) (CHR ''0'') @ ds)" using ne by auto
    then have "read_number (''0'' @ ''.'' @ replicate (nat (- n)) (CHR ''0'') @ ds)
        = read_fixed (''0'' @ ''.'' @ replicate (nat (- n)) (CHR ''0'') @ ds)" by (rule read_number_plain)
    also have "\<dots> = of_int s / 10 ^ length (replicate (nat (- n)) (CHR ''0'') @ ds)"
      using read_fixed_point [of "''0''" "replicate (nat (- n)) (CHR ''0'') @ ds"] sd z by simp
    also have "length (replicate (nat (- n)) (CHR ''0'') @ ds) = nat (k - n)"
      using len C k by (simp add: nat_add_distrib [symmetric])
    finally have r: "read_number (''0'' @ ''.'' @ replicate (nat (- n)) (CHR ''0'') @ ds)
        = of_int s / 10 ^ nat (k - n)" .
    have "(10::rat) powi (n - k) = 1 / 10 ^ nat (k - n)"
      using powi_ten_neg [of "k - n"] C k by simp
    then show ?thesis unfolding f r by simp
  next
    case D
    have f: "format_digits k n s = ds @ exponent_suffix (n - 1)"
      unfolding fd by (simp only: if_not_P [OF D(1)] if_not_P [OF D(2)] if_not_P [OF D(3)] if_P [OF D(4)])
    have "read_number (ds @ exponent_suffix (n - 1)) = of_int s * 10 powi (n - 1)"
      using dch ne dv by (simp add: exponent_suffix_value read_fixed_digits)
    then show ?thesis unfolding f using D(4) by simp
  next
    case E
    have f: "format_digits k n s = (take 1 ds @ ''.'' @ drop 1 ds) @ exponent_suffix (n - 1)"
      unfolding fd by (simp only: if_not_P [OF E(1)] if_not_P [OF E(2)] if_not_P [OF E(3)] if_not_P [OF E(4)]) simp
    have a: "take 1 ds \<noteq> []" using dsne by simp
    have sd: "set (take 1 ds @ drop 1 ds) \<subseteq> decimal_digits" using dch by simp
    have m: "CHR ''e'' \<notin> set (take 1 ds @ ''.'' @ drop 1 ds)"
      using ne set_take_subset [of 1 ds] set_drop_subset [of 1 ds] by auto
    have "read_fixed (take 1 ds @ ''.'' @ drop 1 ds) = of_int s / 10 ^ length (drop 1 ds)"
      using read_fixed_point [OF a sd] dv by simp
    also have "length (drop 1 ds) = nat (k - 1)" using len k by simp
    finally have "read_number (format_digits k n s) = of_int s / 10 ^ nat (k - 1) * 10 powi (n - 1)"
      unfolding f exponent_suffix_value [OF m] by simp
    moreover have "(10::rat) powi (n - k) = 10 powi (n - 1) / 10 ^ nat (k - 1)"
    proof -
      have "(10::rat) ^ nat (k - 1) = 10 powi (k - 1)" using k by (simp add: power_int_nonneg_exp)
      then show ?thesis using power_ten_diff [of "n - 1" "k - 1"] by simp
    qed
    ultimately show ?thesis by simp
  qed
qed

lemma format_digits_shapes:
  "k \<le> n \<and> format_digits k n s = int_digits s @ replicate (nat (n - k)) (CHR ''0'')
   \<or> 0 < n \<and> format_digits k n s = take (nat n) (int_digits s) @ ''.'' @ drop (nat n) (int_digits s)
   \<or> -6 < n \<and> format_digits k n s = ''0.'' @ replicate (nat (- n)) (CHR ''0'') @ int_digits s
   \<or> format_digits k n s = int_digits s @ exponent_suffix (n - 1)
   \<or> format_digits k n s = take 1 (int_digits s) @ ''.'' @ drop 1 (int_digits s) @ exponent_suffix (n - 1)"
  unfolding format_digits_def Let_def by (simp only: split: if_split; simp only: simp_thms; linarith)

lemma format_digits_head:
  assumes k: "1 \<le> k" and lo: "10 ^ nat (k - 1) \<le> s" and hi: "s < 10 ^ nat k"
  shows "take 1 (format_digits k n s) \<noteq> ''-''"
proof -
  have s0: "0 \<le> s" using lo by (smt (verit) zero_le_power)
  have "length (int_digits s) = nat k" by (rule length_int_digits [OF k lo hi])
  moreover have "set (int_digits s) \<subseteq> decimal_digits" by (rule int_digits_chars [OF s0])
  ultimately obtain c t where ds: "int_digits s = c # t" and c: "c \<in> decimal_digits"
    using k by (cases "int_digits s") auto
  have "take 1 (format_digits k n s) = [c] \<or> take 1 (format_digits k n s) = ''0''"
    using format_digits_shapes [of k n s] unfolding ds by (cases "nat n") auto
  then show ?thesis using c by auto
qed

lemma format_digits_chars:
  assumes "set (int_digits s) \<subseteq> D" and "CHR ''0'' \<in> D" and "CHR ''.'' \<in> D"
    and "\<And>e. set (exponent_suffix e) \<subseteq> D"
  shows "set (format_digits k n s) \<subseteq> D"
proof -
  have "set (take j (int_digits s)) \<subseteq> D" "set (drop j (int_digits s)) \<subseteq> D" for j
    using assms(1) set_take_subset set_drop_subset by (metis subset_trans)+
  then show ?thesis using assms format_digits_shapes [of k n s] by (elim disjE) auto
qed

subsection \<open>The digit search\<close>

lemma closer_cases: "closer x k c1 c2 = c1 \<or> closer x k c1 c2 = c2"
  by (simp add: closer_def Let_def)

lemma shortest_at_SomeD:
  assumes "shortest_at x k = Some c"
  shows "c \<in> set (digit_candidates x k) \<and> round_double (of_int (fst c) * 10 powi (snd c - k)) = Some x"
proof -
  define F where "F = filter (\<lambda>(s, n). round_double (of_int s * 10 powi (n - k)) = Some x) (digit_candidates x k)"
  have "c \<in> set F"
  proof (cases F rule: remdups_adj.cases)
    case 1
    then show ?thesis using assms by (simp add: shortest_at_def F_def [symmetric])
  next
    case (2 c1)
    then show ?thesis using assms by (simp add: shortest_at_def F_def [symmetric])
  next
    case (3 c1 c2 r)
    then show ?thesis using assms closer_cases [of x k c1 c2]
      by (auto simp add: shortest_at_def F_def [symmetric])
  qed
  then show ?thesis by (auto simp add: F_def)
qed

lemma shortest_at_None:
  "shortest_at x k = None \<longleftrightarrow>
     (\<forall>c \<in> set (digit_candidates x k). round_double (of_int (fst c) * 10 powi (snd c - k)) \<noteq> Some x)"
  by (auto simp add: shortest_at_def filter_empty_conv split: list.splits)
     (metis (mono_tags, lifting) case_prod_beta filter_empty_conv list.distinct(1))+

lemma shortest_digits_found:
  "shortest_at x k = Some (s, n) \<Longrightarrow> shortest_digits x k = Some (k, n, s)"
  by (subst shortest_digits.simps) simp

lemma shortest_digits_skip:
  "shortest_at x k = None \<Longrightarrow> shortest_digits x k = shortest_digits x (k + 1)"
  by (subst shortest_digits.simps) simp

lemma digit_candidates_range:
  assumes x: "0 < x" and k: "1 \<le> k" and c: "c \<in> set (digit_candidates x k)"
  shows "10 ^ nat (k - 1) \<le> fst c \<and> fst c < 10 ^ nat k"
proof -
  define n where "n = flog 10 x + 1"
  define t where "t = x * 10 powi (k - n)"
  define L :: int where "L = 10 ^ nat (k - 1)"
  define H :: int where "H = 10 ^ nat k"
  have LH: "L < H" using k by (simp add: L_def H_def)
  have fb: "10 powi (n - 1) \<le> x" "x < 10 powi n"
    using flog_bounds [of 10 x] x by (simp_all add: n_def)
  have p: "(10::rat) powi (n - 1) * 10 powi (k - n) = 10 powi (k - 1)"
    "(10::rat) powi n * 10 powi (k - n) = 10 powi k"
    by (simp_all flip: power_int_add)
  have L': "of_int L = (10::rat) powi (k - 1)" and H': "of_int H = (10::rat) powi k"
    using k by (simp_all add: L_def H_def power_int_nonneg_exp)
  have "10 powi (k - 1) \<le> t" unfolding t_def using fb(1) p(1) by (metis mult_right_mono zero_le_power_int zero_le_numeral)
  then have tl: "of_int L \<le> t" using L' by simp
  have "t < 10 powi k" unfolding t_def using fb(2) p(2) by (metis mult_strict_right_mono zero_less_power_int zero_less_numeral)
  then have th: "t < of_int H" using H' by simp
  have lo: "L \<le> \<lfloor>t\<rfloor>" "\<lfloor>t\<rfloor> < H" using tl th by (simp_all add: le_floor_iff floor_less_iff)
  have "\<lfloor>t\<rfloor> \<le> \<lceil>t\<rceil>" by (rule floor_le_ceiling)
  then have hi1: "L \<le> \<lceil>t\<rceil>" using lo(1) by linarith
  have hi2: "\<lceil>t\<rceil> \<le> H" using th by (simp add: ceiling_le_iff)
  note hi = hi1 hi2
  have dc: "digit_candidates x k = remdups [(\<lfloor>t\<rfloor>, n),
      (if of_int \<lceil>t\<rceil> = (10::rat) powi k then (\<lfloor>(10::rat) powi (k - 1)\<rfloor>, n + 1) else (\<lceil>t\<rceil>, n))]"
    by (simp add: digit_candidates_def Let_def n_def t_def)
  show ?thesis
  proof (cases "of_int \<lceil>t\<rceil> = (10::rat) powi k")
    case True
    have "\<lfloor>(10::rat) powi (k - 1)\<rfloor> = L" using L' by (metis floor_of_int)
    then have "c = (\<lfloor>t\<rfloor>, n) \<or> c = (L, n + 1)" using c True unfolding dc by auto
    then show ?thesis using lo LH by (auto simp add: L_def H_def)
  next
    case False
    then have "\<lceil>t\<rceil> \<noteq> H" using H' by auto
    moreover have "c = (\<lfloor>t\<rfloor>, n) \<or> c = (\<lceil>t\<rceil>, n)" using c False unfolding dc by (auto split: if_splits)
    ultimately show ?thesis using lo hi by (auto simp add: L_def H_def)
  qed
qed

lemma shortest_digits_reach:
  assumes "shortest_at x K \<noteq> None" and "k \<le> K"
  shows "\<exists>k' n s. k \<le> k' \<and> shortest_digits x k = Some (k', n, s) \<and> shortest_at x k' = Some (s, n)"
  using assms
proof (induction "nat (K - k)" arbitrary: k)
  case 0
  then have "k = K" by simp
  then obtain s n where "shortest_at x k = Some (s, n)" using "0.prems"(1) by auto
  then show ?case using shortest_digits_found by blast
next
  case (Suc m)
  show ?case
  proof (cases "shortest_at x k")
    case None
    have "m = nat (K - (k + 1))" "k + 1 \<le> K" using Suc.hyps(2) by simp_all
    then obtain k' n s where "k + 1 \<le> k'" "shortest_digits x (k + 1) = Some (k', n, s)"
        "shortest_at x k' = Some (s, n)"
      using Suc.hyps(1) Suc.prems(1) by blast
    then show ?thesis using shortest_digits_skip [OF None] by auto
  next
    case (Some c)
    then show ?thesis using shortest_digits_found [of x k "fst c" "snd c"] by auto
  qed
qed

lemma exact_digits:
  assumes d: "is_double x" and x: "0 < x"
  shows "\<exists>K \<ge> 1. shortest_at x K \<noteq> None"
proof -
  obtain m q where xm: "x = of_int m * 2 powi q"
    using round_double_grid [of x x] d by (auto simp add: is_double_def)
  define n where "n = flog 10 x + 1"
  define K where "K = max 1 (n + max 0 (- q))"
  have j: "0 \<le> K - n" "0 \<le> q + (K - n)" by (simp_all add: K_def)
  define z where "z = m * 5 ^ nat (K - n) * 2 ^ nat (q + (K - n))"
  have "x * 10 powi (K - n) = of_int m * 5 powi (K - n) * (2 powi q * 2 powi (K - n))"
    by (simp add: xm power_int_mult_distrib [of 2 5, simplified] algebra_simps)
  also have "2 powi q * 2 powi (K - n) = (2::rat) powi (q + (K - n))"
    by (simp add: power_int_add)
  finally have t: "x * 10 powi (K - n) = of_int z"
    using j by (simp add: z_def power_int_nonneg_exp)
  have "of_int z * 10 powi (n - K) = x * (10 powi (K - n) * 10 powi (n - K))"
    by (simp add: t [symmetric])
  also have "10 powi (K - n) * 10 powi (n - K) = (1::rat)"
    by (simp flip: power_int_add)
  finally have v: "of_int z * 10 powi (n - K) = x" by simp
  have "(z, n) \<in> set (digit_candidates x K)"
    using t by (simp add: digit_candidates_def Let_def n_def)
  moreover have "round_double (of_int (fst (z, n)) * 10 powi (snd (z, n) - K)) = Some x"
    using v d by (simp add: is_double_def)
  ultimately have "shortest_at x K \<noteq> None" by (auto simp only: shortest_at_None)
  moreover have "1 \<le> K" by (simp add: K_def)
  ultimately show ?thesis by blast
qed

lemma number_to_string_digits:
  assumes d: "is_double x" and x: "x \<noteq> 0"
  shows "\<exists>k n s. number_to_string x = Some ((if x < 0 then ''-'' else '''') @ format_digits k n s)
     \<and> 1 \<le> k \<and> 10 ^ nat (k - 1) \<le> s \<and> s < 10 ^ nat k
     \<and> round_double (of_int s * 10 powi (n - k)) = Some \<bar>x\<bar>"
proof -
  have da: "is_double \<bar>x\<bar>" using d is_double_uminus by (cases "x < 0") auto
  have xa: "0 < \<bar>x\<bar>" using x by simp
  obtain K where "1 \<le> K" "shortest_at \<bar>x\<bar> K \<noteq> None" using exact_digits [OF da xa] by blast
  then obtain k n s where k: "1 \<le> k" and sd: "shortest_digits \<bar>x\<bar> 1 = Some (k, n, s)"
    and sa: "shortest_at \<bar>x\<bar> k = Some (s, n)"
    using shortest_digits_reach [of "\<bar>x\<bar>" K 1] by auto
  from shortest_at_SomeD [OF sa]
  have c: "(s, n) \<in> set (digit_candidates \<bar>x\<bar> k)"
    and r: "round_double (of_int s * 10 powi (n - k)) = Some \<bar>x\<bar>" by simp_all
  have "10 ^ nat (k - 1) \<le> s \<and> s < 10 ^ nat k"
    using digit_candidates_range [OF xa k c] by simp
  moreover have "number_to_string x = Some ((if x < 0 then ''-'' else '''') @ format_digits k n s)"
    using x sd by (simp add: number_to_string_def)
  ultimately show ?thesis using k r by blast
qed

lemma number_to_string_correct:
  assumes d: "is_double x"
  shows "\<exists>t. number_to_string x = Some t \<and> round_double (read_number t) = Some x
     \<and> set t \<subseteq> decimal_digits \<union> set ''.e+-''"
proof (cases "x = 0")
  case True
  have "read_number ''0'' = 0"
    by (simp add: read_number_plain read_fixed_digits digits_value_def digit_value_def)
  then show ?thesis using True by (simp add: number_to_string_def round_double_def)
next
  case False
  obtain k n s where t: "number_to_string x = Some ((if x < 0 then ''-'' else '''') @ format_digits k n s)"
    and k: "1 \<le> k" and lo: "10 ^ nat (k - 1) \<le> s" and hi: "s < 10 ^ nat k"
    and r: "round_double (of_int s * 10 powi (n - k)) = Some \<bar>x\<bar>"
    using number_to_string_digits [OF d False] by blast
  have s0: "0 \<le> s" using lo by (smt (verit) zero_le_power)
  have v: "read_number (format_digits k n s) = of_int s * 10 powi (n - k)"
    by (rule format_digits_read [OF k lo hi])
  have "set (format_digits k n s) \<subseteq> decimal_digits \<union> set ''.e+-''"
  proof (rule format_digits_chars)
    show "set (int_digits s) \<subseteq> decimal_digits \<union> set ''.e+-''"
      using int_digits_chars [OF s0] by blast
    show "\<And>e. set (exponent_suffix e) \<subseteq> decimal_digits \<union> set ''.e+-''"
      using exponent_suffix_chars by fastforce
  qed simp_all
  moreover have "round_double (read_number ((if x < 0 then ''-'' else '''') @ format_digits k n s)) = Some x"
  proof (cases "x < 0")
    case True
    have "read_number (CHR ''-'' # format_digits k n s) = - (of_int s * 10 powi (n - k))"
      using read_number_minus [OF format_digits_head [OF k lo hi]] v by simp
    then show ?thesis using True r by (simp add: round_double_uminus)
  next
    case False
    then show ?thesis using r v by simp
  qed
  ultimately show ?thesis using t by auto
qed

lemma shortest_digits_terminates:
  assumes d: "is_double x" and x: "0 < x"
  shows "\<exists>k n s. shortest_digits x 1 = Some (k, n, s) \<and> 1 \<le> k \<and> 10 ^ nat (k - 1) \<le> s \<and> s < 10 ^ nat k"
proof -
  obtain K where "1 \<le> K" "shortest_at x K \<noteq> None" using exact_digits [OF d x] by blast
  then obtain k n s where k: "1 \<le> k" and sd: "shortest_digits x 1 = Some (k, n, s)"
    and sa: "shortest_at x k = Some (s, n)"
    using shortest_digits_reach [of x K 1] by auto
  have "(s, n) \<in> set (digit_candidates x k)" using shortest_at_SomeD [OF sa] by simp
  then show ?thesis using digit_candidates_range [OF x k] k sd by fastforce
qed

lemma number_to_string_small:
  assumes d: "is_double x" and x0: "x \<noteq> 0" and small: "\<bar>x\<bar> < 1 / (2 * 10 ^ 6)"
    and t: "number_to_string x = Some t"
  shows "CHR ''e'' \<in> set t"
proof -
  obtain k n s where t': "number_to_string x = Some ((if x < 0 then ''-'' else '''') @ format_digits k n s)"
    and k: "1 \<le> k" and lo: "10 ^ nat (k - 1) \<le> s"
    and r: "round_double (of_int s * 10 powi (n - k)) = Some \<bar>x\<bar>"
    using number_to_string_digits [OF d x0] by blast
  define v where "v = (of_int s :: rat) * 10 powi (n - k)"
  have L: "(10::rat) powi (k - 1) \<le> of_int s"
  proof -
    have "(10::rat) powi (k - 1) = of_int (10 ^ nat (k - 1))" using k by (simp add: power_int_nonneg_exp)
    then show ?thesis using lo by (metis of_int_le_iff)
  qed
  have "(10::rat) powi (n - 1) = 10 powi (k - 1) * 10 powi (n - k)" by (simp flip: power_int_add)
  also have "\<dots> \<le> v" unfolding v_def using L by (intro mult_right_mono) simp_all
  finally have vlo: "(10::rat) powi (n - 1) \<le> v" .
  then have v0: "0 < v" by (meson less_le_trans zero_less_power_int zero_less_numeral)
  have "round_double v = Some \<bar>x\<bar>" using r by (simp add: v_def)
  then have "round_double_pos v = Some \<bar>x\<bar>" using v0 by (simp add: round_double_def)
  then have D: "\<bar>\<bar>x\<bar> - v\<bar> \<le> v / 2 ^ 53 \<or> \<bar>\<bar>x\<bar> - v\<bar> \<le> 1 / 2 ^ 1075"
    by (rule round_double_pos_error [OF v0])
  have xs: "\<bar>x\<bar> < 1 / 2000000" using small by simp
  have ab: "v - \<bar>x\<bar> \<le> \<bar>\<bar>x\<bar> - v\<bar>" by linarith
  have "v < 1 / 1000000"
    using D
  proof
    assume "\<bar>\<bar>x\<bar> - v\<bar> \<le> v / 2 ^ 53"
    then show ?thesis using ab xs by simp
  next
    assume "\<bar>\<bar>x\<bar> - v\<bar> \<le> 1 / 2 ^ 1075"
    then show ?thesis using ab xs by simp
  qed
  then have "v < 10 powi (-6)" by (simp add: power_int_minus_divide)
  with vlo have "(10::rat) powi (n - 1) < 10 powi (-6)" by simp
  then have n: "n - 1 < -6" using power_int_strict_increasing [of "-6" "n - 1" "10::rat"] by (meson not_less power_int_increasing one_le_numeral)
  have "CHR ''e'' \<in> set (format_digits k n s)"
    using format_digits_shapes [of k n s] n k by (auto simp add: exponent_suffix_def)
  then show ?thesis using t t' by auto
qed

end
