(* ===== verification/Geocoding.thy ===== *)
theory Geocoding
  imports Marker_Controller Number_To_String
begin

text \<open>
  The request \<open>addNewMarker\<close> issues (\<^verbatim>\<open>src/src/App.jsx\<close> lines 59-60): the
  template literal
  \<open>https://nominatim.openstreetmap.org/reverse?format=json&lat=${latlng.lat}&lon=${latlng.lng}\<close>
  converts both coordinates with \<open>Number::toString\<close>; \<open>request_url\<close> is its value,
  and \<open>task_request\<close> the request a suspended invocation waits on. The second group
  reads such a URL as the service does: \<open>url_path\<close> is the part before \<open>?\<close>, and
  \<open>query_param\<close> the first value given to a parameter in the query string (a
  query of \<open>&\<close>-separated \<open>name=value\<close> pairs). No percent-decoding is modelled,
  since a printed number contains only digits and \<open>.e+-\<close>.
\<close>

definition reverse_endpoint :: js_string where
  "reverse_endpoint = ''https://nominatim.openstreetmap.org/reverse''"

definition request_url :: "latlng \<Rightarrow> js_string option" where
  "request_url ll =
     (case number_to_string (lat ll) of
        None \<Rightarrow> None
      | Some a \<Rightarrow>
          (case number_to_string (lng ll) of
             None \<Rightarrow> None
           | Some b \<Rightarrow> Some (reverse_endpoint @ ''?format=json&lat='' @ a @ ''&lon='' @ b)))"

fun task_request :: "task \<Rightarrow> js_string option" where
  "task_request (AwaitFetch tid ll) = request_url ll"
| "task_request (AwaitJson tid) = None"

fun split_on :: "char \<Rightarrow> js_string \<Rightarrow> js_string list" where
  "split_on c [] = [Nil]"
| "split_on c (x # xs) = (if x = c then [] # split_on c xs else (let r = split_on c xs in (x # hd r) # tl r))"

definition url_path :: "js_string \<Rightarrow> js_string" where
  "url_path u = takeWhile (\<lambda>c. c \<noteq> CHR ''?'') u"

definition query_params :: "js_string \<Rightarrow> (js_string \<times> js_string) list" where
  "query_params u =
     map (\<lambda>p. (takeWhile (\<lambda>c. c \<noteq> CHR ''='') p, drop 1 (dropWhile (\<lambda>c. c \<noteq> CHR ''='') p)))
       (split_on (CHR ''&'') (drop 1 (dropWhile (\<lambda>c. c \<noteq> CHR ''?'') u)))"

definition query_param :: "js_string \<Rightarrow> js_string \<Rightarrow> js_string option" where
  "query_param u name = map_of (query_params u) name"

subsection \<open>Reading the request back\<close>

lemma split_on_plain: "c \<notin> set xs \<Longrightarrow> split_on c xs = [xs]"
  by (induction xs) auto

lemma split_on_append: "c \<notin> set xs \<Longrightarrow> split_on c (xs @ c # ys) = xs # split_on c ys"
  by (induction xs) auto

lemma request_url_Some:
  "number_to_string (lat ll) = Some a \<Longrightarrow> number_to_string (lng ll) = Some b \<Longrightarrow>
     request_url ll = Some (reverse_endpoint @ ''?format=json&lat='' @ a @ ''&lon='' @ b)"
  by (simp add: request_url_def)

lemma query_of_request:
  assumes a: "set a \<subseteq> decimal_digits \<union> set ''.e+-''" and b: "set b \<subseteq> decimal_digits \<union> set ''.e+-''"
  defines "u \<equiv> reverse_endpoint @ ''?format=json&lat='' @ a @ ''&lon='' @ b"
  shows "url_path u = reverse_endpoint
    \<and> query_params u = [(''format'', ''json''), (''lat'', a), (''lon'', b)]"
proof -
  have na: "CHR ''&'' \<notin> set a" "CHR ''&'' \<notin> set b" using a b by auto
  have e: "\<forall>c \<in> set reverse_endpoint. c \<noteq> CHR ''?''" by (simp add: reverse_endpoint_def)
  have tw: "takeWhile (\<lambda>c. c \<noteq> CHR ''?'') u = reverse_endpoint"
    and dw: "dropWhile (\<lambda>c. c \<noteq> CHR ''?'') u = ''?format=json&lat='' @ a @ ''&lon='' @ b"
    using e by (simp_all add: u_def takeWhile_append2 dropWhile_append2)
  have "split_on (CHR ''&'') (''format=json&lat='' @ a @ ''&lon='' @ b)
      = [''format=json'', ''lat='' @ a, ''lon='' @ b]"
    using split_on_append [of "CHR ''&''" "''format=json''" "''lat='' @ a @ ''&lon='' @ b"]
      split_on_append [of "CHR ''&''" "''lat='' @ a" "''lon='' @ b"]
      split_on_plain [of "CHR ''&''" "''lon='' @ b"] na
    by simp
  then show ?thesis using tw dw by (simp add: url_path_def query_params_def)
qed

lemma request_url_reads_back:
  assumes "is_double (lat ll)" and "is_double (lng ll)"
  shows "\<exists>u a b. request_url ll = Some u \<and> url_path u = reverse_endpoint
    \<and> query_param u ''format'' = Some ''json''
    \<and> query_param u ''lat'' = Some a \<and> query_param u ''lon'' = Some b
    \<and> round_double (read_number a) = Some (lat ll) \<and> round_double (read_number b) = Some (lng ll)"
proof -
  obtain a where a: "number_to_string (lat ll) = Some a" "round_double (read_number a) = Some (lat ll)"
    "set a \<subseteq> decimal_digits \<union> set ''.e+-''"
    using number_to_string_correct [OF assms(1)] by blast
  obtain b where b: "number_to_string (lng ll) = Some b" "round_double (read_number b) = Some (lng ll)"
    "set b \<subseteq> decimal_digits \<union> set ''.e+-''"
    using number_to_string_correct [OF assms(2)] by blast
  show ?thesis
    using request_url_Some [OF a(1) b(1)] query_of_request [OF a(3) b(3)] a(2) b(2)
    by (simp add: query_param_def)
qed

lemma click_last_task:
  "app_step s (Click ev now) = Some s' \<Longrightarrow> last (tasks s') = AwaitFetch now (event_latlng ev)"
  by (auto simp add: click_handle_def add_new_marker_def)

text \<open>
  C23 (roundtrip, the request asks for the clicked point). A click at a coordinate
  leaves a pending request to the reverse-geocoding endpoint with
  \<open>format=json\<close>, whose \<open>lat\<close> and \<open>lon\<close> parameters, read as numbers, are
  exactly the clicked latitude and longitude.
\<close>

theorem click_requests_clicked_coordinate:
  assumes "app_step s (Click ev now) = Some s'"
    and "is_double (lat (event_latlng ev))" and "is_double (lng (event_latlng ev))"
  shows "\<exists>u a b. task_request (last (tasks s')) = Some u \<and> url_path u = reverse_endpoint
    \<and> query_param u ''format'' = Some ''json''
    \<and> query_param u ''lat'' = Some a \<and> query_param u ''lon'' = Some b
    \<and> round_double (read_number a) = Some (lat (event_latlng ev))
    \<and> round_double (read_number b) = Some (lng (event_latlng ev))"
proof -
  show ?thesis using click_last_task [OF assms(1)] request_url_reads_back [OF assms(2,3)] by simp
qed

theorem click_requests_clicked_coordinate_witness:
  "app_step init_state (Click \<lparr>event_latlng = \<lparr>lat = initial_lat, lng = initial_lng\<rparr>\<rparr> 1700000000000)
     = Some (add_new_marker 1700000000000 \<lparr>lat = initial_lat, lng = initial_lng\<rparr> init_state)
   \<and> is_double initial_lat \<and> is_double initial_lng
   \<and> (\<exists>u a b. task_request (last (tasks (add_new_marker 1700000000000
          \<lparr>lat = initial_lat, lng = initial_lng\<rparr> init_state))) = Some u
        \<and> url_path u = reverse_endpoint \<and> query_param u ''format'' = Some ''json''
        \<and> query_param u ''lat'' = Some a \<and> query_param u ''lon'' = Some b
        \<and> round_double (read_number a) = Some initial_lat
        \<and> round_double (read_number b) = Some initial_lng)"
proof -
  have s: "app_step init_state (Click \<lparr>event_latlng = \<lparr>lat = initial_lat, lng = initial_lng\<rparr>\<rparr> 1700000000000)
     = Some (add_new_marker 1700000000000 \<lparr>lat = initial_lat, lng = initial_lng\<rparr> init_state)"
    by (simp add: click_handle_def)
  have d: "is_double initial_lat" "is_double initial_lng"
    unfolding initial_lat_def initial_lng_def by code_simp+
  show ?thesis using click_requests_clicked_coordinate [OF s] s d by simp
qed

text \<open>
  C17 (coordinates in exponent notation). The specification says the request carries
  the decimal degree values of the click. \<open>Number::toString\<close> prints magnitudes
  below \<open>10^-6\<close> in exponent notation, so every click closer than about 5 cm to the
  equator (a latitude below \<open>5 * 10^-7\<close> in magnitude, not zero) sends a \<open>lat\<close>
  parameter such as \<open>1e-7\<close>, with an exponent marker \<open>e\<close>.
\<close>

theorem small_coordinate_in_exponent_notation:
  assumes st: "app_step s (Click ev now) = Some s'"
    and d: "is_double (lat (event_latlng ev))" "is_double (lng (event_latlng ev))"
    and nz: "lat (event_latlng ev) \<noteq> 0" and small: "\<bar>lat (event_latlng ev)\<bar> < 1 / (2 * 10 ^ 6)"
  shows "\<exists>u a. task_request (last (tasks s')) = Some u \<and> query_param u ''lat'' = Some a
    \<and> CHR ''e'' \<in> set a"
proof -
  obtain a where a: "number_to_string (lat (event_latlng ev)) = Some a"
    "set a \<subseteq> decimal_digits \<union> set ''.e+-''"
    using number_to_string_correct [OF d(1)] by blast
  obtain b where b: "number_to_string (lng (event_latlng ev)) = Some b"
    "set b \<subseteq> decimal_digits \<union> set ''.e+-''"
    using number_to_string_correct [OF d(2)] by blast
  have "CHR ''e'' \<in> set a" by (rule number_to_string_small [OF d(1) nz small a(1)])
  then show ?thesis
    using click_last_task [OF st] request_url_Some [OF a(1) b(1)] query_of_request [OF a(2) b(2)]
    by (simp add: query_param_def)
qed

theorem small_coordinate_in_exponent_notation_witness:
  "app_step init_state (Click \<lparr>event_latlng = \<lparr>lat = 944473296573929 / 9444732965739290427392, lng = 0\<rparr>\<rparr> 1700000000000)
     = Some (add_new_marker 1700000000000 \<lparr>lat = 944473296573929 / 9444732965739290427392, lng = 0\<rparr> init_state)
   \<and> is_double (944473296573929 / 9444732965739290427392) \<and> is_double 0
   \<and> (944473296573929 / 9444732965739290427392 :: rat) \<noteq> 0
   \<and> \<bar>944473296573929 / 9444732965739290427392 :: rat\<bar> < 1 / (2 * 10 ^ 6)
   \<and> (\<exists>u a. task_request (last (tasks (add_new_marker 1700000000000
          \<lparr>lat = 944473296573929 / 9444732965739290427392, lng = 0\<rparr> init_state))) = Some u
        \<and> query_param u ''lat'' = Some a \<and> CHR ''e'' \<in> set a)"
proof -
  have s: "app_step init_state (Click \<lparr>event_latlng = \<lparr>lat = 944473296573929 / 9444732965739290427392, lng = 0\<rparr>\<rparr> 1700000000000)
     = Some (add_new_marker 1700000000000 \<lparr>lat = 944473296573929 / 9444732965739290427392, lng = 0\<rparr> init_state)"
    by (simp add: click_handle_def)
  have d: "is_double (944473296573929 / 9444732965739290427392)" by code_simp
  have z: "is_double 0" by simp
  have h: "(944473296573929 / 9444732965739290427392 :: rat) \<noteq> 0"
    "\<bar>944473296573929 / 9444732965739290427392 :: rat\<bar> < 1 / (2 * 10 ^ 6)" by simp_all
  from small_coordinate_in_exponent_notation [OF s] d z h show ?thesis using s by simp
qed

end
