(* ===== verification/Spec2Isabelle.thy ===== *)
theory Spec2Isabelle
  imports App_System Spec_Model Geocoding
begin

text \<open>
  A verification development for the single-page map viewer of
  \<^verbatim>\<open>src/src/App.jsx\<close> (React with react-leaflet). A click on the map drops a
  marker at once with a placeholder label and opens its popup; an asynchronous
  reverse-geocoding request (Nominatim) later replaces the label with the address,
  or with a failure text.

  \<^bold>\<open>Parts of the program and their theories.\<close>
  \<^item> \<open>Prelude\<close>: the types naming JavaScript values (a number is the exact rational
    value of its double, a string its UTF-8 bytes, a \<open>Date.now()\<close> timestamp an
    integer), the rule collections \<open>model_simps\<close> and \<open>frame_simps\<close>, and the
    list operations the model is written with: \<open>map_where\<close> for the
    \<open>xs.map(x => cond ? f(x) : x)\<close> updaters and \<open>remove_nth\<close> for a settled task.
  \<^item> \<open>Js_Values\<close>: the JSON values \<open>response.json()\<close> yields and the member access
    \<open>data.display_name\<close> (line 62), which throws on \<open>null\<close>.
  \<^item> \<open>Marker_Controller\<close>: the \<open>markers\<close> state of \<open>App\<close> (lines 41-43), the
    click listener \<open>ClickHandle\<close> (lines 14-22, \<open>click_handle\<close>) and the async
    function \<open>addNewMarker\<close> (lines 45-76). Its synchronous part up to
    \<open>await fetch(url)\<close> is \<open>add_new_marker\<close>; each suspended invocation is a
    \<open>task\<close> holding its closure's \<open>tempId\<close>; the two resumptions are
    \<open>fetch_settled\<close> (after \<open>await fetch\<close>) and \<open>json_settled\<close> (after
    \<open>await response.json()\<close>, with \<open>address_label\<close> the value the \<open>try\<close>/\<open>catch\<close>
    writes); both updaters are \<open>set_text\<close>. \<open>app_step\<close> is one turn of the event
    loop: a click, or one pending promise settling, in any order; \<open>app_run\<close> runs a
    list of events, \<open>reachable\<close> is the set of states some run reaches, and
    \<open>reachable_fresh\<close> those reached when every click gets an id no marker carries.
  \<^item> \<open>Double_Rounding\<close> and \<open>Number_To_String\<close>: the conversion of a number to a
    string that the template literal of line 59 applies to \<open>latlng.lat\<close> and
    \<open>latlng.lng\<close> (ECMA-262 \<open>Number::toString\<close>): rounding to the nearest double,
    the search for the fewest significant digits that round back to the value (a
    \<open>partial_function\<close>, shown to return on every double), and the printing of
    those digits as an integer, a decimal fraction or in exponent notation.
  \<^item> \<open>Geocoding\<close>: the request URL of lines 59-60 (\<open>request_url\<close>), the request a
    suspended invocation waits on (\<open>task_request\<close>), and the reading of such a URL
    into its path and query parameters.
  \<^item> \<open>To_Fixed\<close>: \<open>Number.prototype.toFixed\<close> (ECMA-262) on the exact value of a
    double, as called on line 92, with \<open>read_fixed\<close>, the value of a decimal numeral.
  \<^item> \<open>Renderer\<close>: the pins rendered by \<open>markers.map\<close> with \<open>key={index}\<close> (lines
    87-95), the popup children (lines 89-93) rendered as React renders children,
    the mount-once effect of \<open>AutoOpenMarker\<close> (lines 24-37) and \<open>commit\<close>, which
    reconciles keys, runs the effects of new pins and unmounts the tree on a render
    error (there is no error boundary).
  \<^item> \<open>App_System\<close>: the component as a whole: after every event React renders
    \<open>App\<close> again and commits (\<open>sys_step\<close>), logging the \<open>openPopup\<close> calls; and
    the configuration passed to the map widget (\<open>app_map_config\<close>, lines 11 and
    78-83).
  \<^item> \<open>Spec_Model\<close>: the contract of sections 3, 4.2 and 9 of the specification as an
    abstract machine over label states \<open>Pending\<close>, \<open>Resolved\<close>, \<open>Failed\<close>, and the
    relation \<open>refines\<close> of the code's state to it. Its outcome of a settled body
    (\<open>json_outcome_of\<close>) is the code's own classification, so it counts a missing
    \<open>display_name\<close> as resolved; C14 states where that departs from the specification.

  \<^bold>\<open>What is proved.\<close> Every property is stated over arbitrary states, or over
  every reachable state, never over one fixed run. In \<open>Marker_Controller\<close>: the
  optimistic insert (C1); the invariant \<open>ctrl_inv\<close> (pending requests have
  markers, ids unique, pending markers show the placeholder) holds in every
  \<open>reachable_fresh\<close> state, so a label changes at most once, from the placeholder
  (C2); a step touches only the markers of the request it resumes (C3); two requests
  settle in either order to the same state (C4); every request completes within two
  settle events whatever the network does (C5); the failure and success branches
  (C6-C8); the HTTP status is never examined (C9); markers are only appended, their
  ids and positions never change (C10). Here: the two end-to-end flows of the
  specification from any state, success (C11) and network failure (C12); clicks in
  the same millisecond share an id, so one request relabels the other's marker and a
  resolved marker gets a second final label (C13); an error answer without
  \<open>display_name\<close> leaves the label \<open>undefined\<close> rather than the failure text (C14);
  labels are always \<open>undefined\<close> or JSON values (C16). In \<open>Renderer\<close>: every popup
  shows the label, then the latitude and the longitude with exactly four decimals,
  each within half a unit of the last decimal (C15). In \<open>Geocoding\<close>: every
  click's request goes to the reverse endpoint with \<open>format=json\<close> and its
  \<open>lat\<close>/\<open>lon\<close> parameters read back to exactly the clicked coordinate (C23); a
  latitude below \<open>5 * 10^-7\<close> is sent in exponent notation (C17). In
  \<open>App_System\<close>: each pin's popup is opened exactly once, in marker order (C18); a
  click opens its new popup in the same turn (C19); settlements open no popup (C20);
  an object-valued \<open>display_name\<close> unmounts the whole application (C21). In
  \<open>Spec_Model\<close>: every run with fresh ids refines the abstract machine (C22).

  \<^bold>\<open>Bounds and choices.\<close> Runs are finite event lists and every operation of the
  program is a total function; a request that never settles is a task that no event
  resumes, and C5 shows two events always suffice to end it. The digit search of
  \<open>Number::toString\<close> is a \<open>partial_function\<close>; it is shown to return on every
  positive double, since at the latest the exact decimal expansion of the double is
  found. Freshness of \<open>Date.now()\<close> is a hypothesis (\<open>fresh_event\<close>), since the
  clock does not guarantee it; C13 shows what happens without it. The
  \<open>Number::toString\<close> branch of \<open>toFixed\<close> (\<open>|x| \<ge> 10^21\<close>) is the value \<open>None\<close>,
  so the popup properties assume coordinates below \<open>10^21\<close>. NaN and infinite
  coordinates do not arise from a map click and are not modelled.

  \<^bold>\<open>Not modelled.\<close> The map widget's behaviour (tiles, projection, pan and zoom,
  hit-testing) and the network are the environment: a click event carries its
  coordinate and the clock value, a settle event carries the promise's outcome; only
  the configuration the code passes to the widget is modelled. Leaflet's own popup
  handling (one open popup at a time) is outside this repository, as are the module
  imports and \<open>export default App\<close> (lines 1-9 and 101).
\<close>



lemma click_step:
  "app_step s (Click ev now) = Some (add_new_marker now (event_latlng ev) s)"
  by (simp add: click_handle_def)

lemma remove_last [simp]: "remove_nth (length xs) (xs @ [x]) = xs"
  by (simp add: remove_nth_def)

lemma fresh_set_text:
  assumes "Some now \<notin> marker_id ` set ms"
  shows "set_text now v (ms @ [temp_marker now ll]) = ms @ [(temp_marker now ll)\<lparr>marker_text := v\<rparr>]"
proof -
  have "\<forall>m \<in> set ms. marker_id m \<noteq> Some now" using assms by (auto simp add: image_iff)
  then show ?thesis by (simp add: set_text_def map_where_no_match temp_marker_def)
qed

lemma new_request_fetch:
  "app_step (add_new_marker now ll s) (Fetch_settles (length (tasks s)) r)
     = Some (fetch_settled (length (tasks s)) now r (add_new_marker now ll s))"
  by (simp add: add_new_marker_def)

lemma new_request_json:
  "app_step (fetch_settled (length (tasks s)) now (FetchResolved status) (add_new_marker now ll s))
       (Json_settles (length (tasks s)) r)
     = Some (json_settled (length (tasks s)) now r
               (fetch_settled (length (tasks s)) now (FetchResolved status) (add_new_marker now ll s)))"
  by (simp add: add_new_marker_def fetch_settled_def)


text \<open>
  C11 (end-to-end success). From any state, a click at a coordinate with a fresh id,
  followed by a response of any status whose body has a string \<open>display_name\<close>,
  appends one marker at that coordinate labelled with that string, touches no other
  marker and leaves the set of pending requests as it was.
\<close>

theorem click_then_address:
  assumes fresh: "Some now \<notin> marker_id ` set (markers s)"
    and dn: "display_name_of v = Inr (Str a)"
  shows "\<exists>s'. app_run s [Click ev now, Fetch_settles (length (tasks s)) (FetchResolved status),
                         Json_settles (length (tasks s)) (JsonResolved v)] = Some s'
     \<and> markers s' = markers s @ [\<lparr>marker_id = Some now, marker_lat = lat (event_latlng ev),
                                   marker_lng = lng (event_latlng ev), marker_text = Str a\<rparr>]
     \<and> tasks s' = tasks s"
  using fresh dn
  by (simp del: app_step.simps add: click_step new_request_fetch new_request_json)
     (simp add: fetch_settled_def json_settled_def address_label_def add_new_marker_def
        fresh_set_text [OF fresh], simp add: temp_marker_def)

theorem click_then_address_witness:
  "Some 1700000000000 \<notin> marker_id ` set (markers init_state)
   \<and> display_name_of (Obj [(''display_name'', Str ''Example Address, Japan'')]) = Inr (Str ''Example Address, Japan'')
   \<and> (\<exists>s'. app_run init_state [Click \<lparr>event_latlng = \<lparr>lat = 35, lng = 139\<rparr>\<rparr> 1700000000000,
            Fetch_settles 0 (FetchResolved 200),
            Json_settles 0 (JsonResolved (Obj [(''display_name'', Str ''Example Address, Japan'')]))] = Some s'
        \<and> markers s' = markers init_state @ [\<lparr>marker_id = Some 1700000000000, marker_lat = 35,
             marker_lng = 139, marker_text = Str ''Example Address, Japan''\<rparr>]
        \<and> tasks s' = tasks init_state)"
proof -
  have h: "Some 1700000000000 \<notin> marker_id ` set (markers init_state)"
    "display_name_of (Obj [(''display_name'', Str ''Example Address, Japan'')]) = Inr (Str ''Example Address, Japan'')"
    by (simp_all add: model_simps)
  show ?thesis
    using click_then_address [OF h, of "\<lparr>event_latlng = \<lparr>lat = 35, lng = 139\<rparr>\<rparr>" 200] h
    by (simp add: init_state_def)
qed

text \<open>
  C12 (end-to-end failure). From any state, a click at a coordinate with a fresh id
  whose request then fails with a network error appends one marker at that
  coordinate labelled with the failure text, touches no other marker and leaves the
  set of pending requests as it was.
\<close>

theorem click_then_network_error:
  assumes fresh: "Some now \<notin> marker_id ` set (markers s)"
  shows "\<exists>s'. app_run s [Click ev now, Fetch_settles (length (tasks s)) (FetchRejected err)] = Some s'
     \<and> markers s' = markers s @ [\<lparr>marker_id = Some now, marker_lat = lat (event_latlng ev),
                                   marker_lng = lng (event_latlng ev), marker_text = Str failure_text\<rparr>]
     \<and> tasks s' = tasks s"
  using fresh
  by (simp del: app_step.simps add: click_step new_request_fetch)
     (simp add: fetch_settled_def add_new_marker_def fresh_set_text [OF fresh], simp add: temp_marker_def)

theorem click_then_network_error_witness:
  "Some 1700000000000 \<notin> marker_id ` set (markers init_state)
   \<and> (\<exists>s'. app_run init_state [Click \<lparr>event_latlng = \<lparr>lat = 0, lng = 0\<rparr>\<rparr> 1700000000000,
            Fetch_settles 0 (FetchRejected TypeError)] = Some s'
        \<and> markers s' = markers init_state @ [\<lparr>marker_id = Some 1700000000000, marker_lat = 0,
             marker_lng = 0, marker_text = Str failure_text\<rparr>]
        \<and> tasks s' = tasks init_state)"
proof -
  have h: "Some 1700000000000 \<notin> marker_id ` set (markers init_state)" by (simp add: model_simps)
  show ?thesis
    using click_then_network_error [OF h, of "\<lparr>event_latlng = \<lparr>lat = 0, lng = 0\<rparr>\<rparr>" TypeError] h
    by (simp add: init_state_def)
qed
text \<open>
  C13 (ids from \<open>Date.now()\<close> collide). From any state, two clicks within the same
  millisecond get the same id. When the first request's body settles, its updater
  relabels the second click's marker too, although that marker's request is still
  pending; when the second request then fails, the first marker, already resolved,
  receives a second final label. The specification requires unique ids and one final
  label per marker.
\<close>

theorem same_millisecond_clicks_cross_update:
  "\<exists>s' s''. app_run s [Click ev1 now, Click ev2 now,
                       Fetch_settles (length (tasks s)) (FetchResolved status),
                       Json_settles (length (tasks s)) (JsonResolved v)] = Some s'
     \<and> marker_text (markers s' ! length (markers s)) = address_label (JsonResolved v)
     \<and> marker_text (markers s' ! Suc (length (markers s))) = address_label (JsonResolved v)
     \<and> now \<in> set (pending_ids s')
     \<and> app_step s' (Fetch_settles (length (tasks s)) (FetchRejected err)) = Some s''
     \<and> marker_text (markers s'' ! length (markers s)) = Str failure_text"
proof -
  define i where "i = length (tasks s)"
  define s2 where "s2 = add_new_marker now (event_latlng ev2) (add_new_marker now (event_latlng ev1) s)"
  define L where "L = address_label (JsonResolved v)"
  have t2: "tasks s2 = tasks s @ [AwaitFetch now (event_latlng ev1), AwaitFetch now (event_latlng ev2)]"
    and m2: "markers s2 = markers s @ [temp_marker now (event_latlng ev1), temp_marker now (event_latlng ev2)]"
    by (simp_all add: s2_def add_new_marker_def)
  define s' where "s' = json_settled i now (JsonResolved v) (fetch_settled i now (FetchResolved status) s2)"
  have run: "app_run s [Click ev1 now, Click ev2 now, Fetch_settles i (FetchResolved status),
                        Json_settles i (JsonResolved v)] = Some s'"
    using t2 by (simp del: app_step.simps add: click_step s2_def [symmetric])
      (simp add: s'_def i_def fetch_settled_def nth_append)
  have ts': "tasks s' = tasks s @ [AwaitFetch now (event_latlng ev2)]"
    by (simp add: s'_def t2 fetch_settled_def json_settled_def i_def remove_nth_def)
  have ms': "markers s' = set_text now L (markers s2)"
    by (simp add: s'_def fetch_settled_def json_settled_def L_def)
  have own: "marker_id (temp_marker now ll) = Some now" for ll by (simp add: temp_marker_def)
  have lab: "marker_text (markers s' ! length (markers s)) = L"
    "marker_text (markers s' ! Suc (length (markers s))) = L"
    by (simp_all add: ms' m2 set_text_nth nth_append own)
  have pend: "now \<in> set (pending_ids s')" by (simp add: pending_ids_def ts')
  define s'' where "s'' = fetch_settled i now (FetchRejected err) s'"
  have st: "app_step s' (Fetch_settles i (FetchRejected err)) = Some s''"
    by (simp add: s''_def ts' i_def nth_append)
  have "marker_text (markers s'' ! length (markers s)) = Str failure_text"
    by (simp add: s''_def fetch_settled_def ms' m2 set_text_nth nth_append own)
  then show ?thesis using run lab pend st by (auto simp add: i_def L_def)
qed

text \<open>
  C14 (HTTP errors are not failures). The specification counts a non-2xx status and a
  response without \<open>display_name\<close> as a geocoding failure. The code checks neither:
  for any request waiting on \<open>fetch\<close>, an answer of any status whose body is an
  object without \<open>display_name\<close> (Nominatim's \<open>{"error": ...}\<close>) sets the labels of
  the request's markers to \<open>undefined\<close>, which renders as an empty label, and ends
  the request.
\<close>

theorem http_error_gives_undefined_label:
  assumes i: "i < length (tasks s)" and t: "tasks s ! i = AwaitFetch tid ll"
    and nodn: "map_of (rev kvs) ''display_name'' = None"
  shows "\<exists>s'. app_run s [Fetch_settles i (FetchResolved status), Json_settles i (JsonResolved (Obj kvs))]
      = Some s'
    \<and> markers s' = set_text tid Undefined (markers s) \<and> tasks s' = remove_nth i (tasks s)"
proof -
  define s1 where "s1 = fetch_settled i tid (FetchResolved status) s"
  have a: "app_step s (Fetch_settles i (FetchResolved status)) = Some s1"
    and t1: "tasks s1 ! i = AwaitJson tid" "i < length (tasks s1)"
    using i t by (simp_all add: s1_def fetch_settled_def)
  have "address_label (JsonResolved (Obj kvs)) = Undefined"
    using nodn by (simp add: address_label_def)
  then have "app_step s1 (Json_settles i (JsonResolved (Obj kvs)))
      = Some (s1\<lparr>markers := set_text tid Undefined (markers s1), tasks := remove_nth i (tasks s1)\<rparr>)"
    using t1 by (simp add: json_settled_def)
  then show ?thesis using a by (simp add: s1_def fetch_settled_def)
qed

theorem http_error_gives_undefined_label_witness:
  "0 < length (tasks (add_new_marker 1700000000000 \<lparr>lat = 0, lng = 0\<rparr> init_state))
   \<and> tasks (add_new_marker 1700000000000 \<lparr>lat = 0, lng = 0\<rparr> init_state) ! 0
       = AwaitFetch 1700000000000 \<lparr>lat = 0, lng = 0\<rparr>
   \<and> map_of (rev [(''error'', Str ''Unable to geocode'')]) ''display_name'' = None
   \<and> (\<exists>s'. app_run (add_new_marker 1700000000000 \<lparr>lat = 0, lng = 0\<rparr> init_state)
            [Fetch_settles 0 (FetchResolved 400),
             Json_settles 0 (JsonResolved (Obj [(''error'', Str ''Unable to geocode'')]))] = Some s'
        \<and> markers s' = set_text 1700000000000 Undefined
                         (markers (add_new_marker 1700000000000 \<lparr>lat = 0, lng = 0\<rparr> init_state))
        \<and> tasks s' = remove_nth 0 (tasks (add_new_marker 1700000000000 \<lparr>lat = 0, lng = 0\<rparr> init_state)))"
proof -
  have h: "0 < length (tasks (add_new_marker 1700000000000 \<lparr>lat = 0, lng = 0\<rparr> init_state))"
    "tasks (add_new_marker 1700000000000 \<lparr>lat = 0, lng = 0\<rparr> init_state) ! 0
       = AwaitFetch 1700000000000 \<lparr>lat = 0, lng = 0\<rparr>"
    "map_of (rev [(''error'', Str ''Unable to geocode'')]) ''display_name'' = None"
    by (simp_all add: add_new_marker_def init_state_def)
  show ?thesis using http_error_gives_undefined_label [OF h, of 400] h by blast
qed



end
